theory Spec2Isabelle
  imports Complex_Main
begin

section \<open>Data model\<close>

text \<open>
  The sources hold two revisions of the Canvas component:
  \<^item> the history-enabled Canvas (\<open>src/unnamed/part_001\<close>: undo/redo stacks,
    configurable snap distance; the one the current \<open>App.tsx\<close> renders), whose
    handlers keep their source names here;
  \<^item> the MagicBox Canvas (the second document in
    \<open>src/components/ModelManagerModal.tsx\<close>: fixed snap distance of 12 screen
    pixels, optional \<open>onMagicBoxSelect\<close> handler, clamped resize), whose handlers
    carry the suffix \<open>M\<close>.
  The bodies of the branches of \<open>handleMouseMove\<close> are definitions of their own
  (\<open>drawMove\<close>, \<open>resizeMove\<close>, \<open>dragMove\<close>), as are the array expressions
  the handlers share.

  JavaScript numbers are modelled as exact reals: rounding, infinities and NaN are outside
  the model, and every statement that divides assumes the divisor positive.
\<close>

datatype ToolMode = SELECT | DRAW | PAN | MAGIC_BOX

text \<open>The corner handles \<open>'tl' | 'tr' | 'bl' | 'br'\<close>.\<close>

datatype ResizeHandleType = TL | TR | BL | BR

text \<open>A bounding box in normalised centre form (interface \<open>BBox\<close>).\<close>

record BBox =
  bb_id :: string
  bb_labelId :: string
  bb_x :: real
  bb_y :: real
  bb_w :: real
  bb_h :: real

text \<open>A pixel rectangle in top-left form, \<open>{x, y, w, h}\<close>.\<close>

record rect =
  rx :: real
  ry :: real
  rw :: real
  rh :: real

record point =
  px :: real
  py :: real

record mouse =
  clientX :: real
  clientY :: real

text \<open>
  A JavaScript array of boxes is an object with an identity: \<open>!==\<close> on two arrays
  compares identities, not contents. Arrays are never mutated in place by the editor, so an
  array value is its identity together with its (fixed) contents.
\<close>

record annots =
  arr_ref :: nat
  arr_items :: "BBox list"

text \<open>
  What both revisions of the component share: the props read by the handlers, the
  \<open>useState\<close> cells of the interaction, the bounding rectangle of the container
  element (\<open>None\<close> while \<open>containerRef.current\<close> is null) and the next unused
  array identity.
\<close>

record core =
  image_id :: string
  image_width :: real
  image_height :: real
  annotations :: annots
  currentLabelId :: string
  mode :: ToolMode
  zoom :: real
  pan :: point
  selectedAnnotationId :: "string option"
  isDragging :: bool
  dragStart :: "point option"
  activeCreation :: "rect option"
  draggingAnnotationId :: "string option"
  resizeHandle :: "ResizeHandleType option"
  activeSnapLines :: "real option \<times> real option"
  initialMoveRect :: "rect option"
  containerRect :: "point option"
  next_ref :: nat

text \<open>
  The history-enabled Canvas adds the snap distance prop, the two stacks, the five
  \<open>useRef\<close> cells and the dependency values \<open>[image.id, image.annotations]\<close> seen by
  the last run of the history effect.
\<close>

record canvas = core +
  snapPixelDistance :: real
  undoStack :: "annots list"
  redoStack :: "annots list"
  prevAnnotationsRef :: annots
  prevImageIdRef :: string
  isHistoryAction :: bool
  dragStartAnnotationsRef :: annots
  isUndoRedo :: bool
  effect_deps :: "string \<times> nat"

text \<open>
  The MagicBox Canvas adds the optional handler prop (is it provided?) and, as the
  observable output, the rectangles it has been called with.
\<close>

record canvasM = core +
  onMagicBoxSelect :: bool
  magicBoxCalls :: "rect list"

section \<open>Coordinate transform\<close>

text \<open>
  Modelled from the spec: \<open>yoloToSvg\<close> and \<open>svgToYolo\<close> live in
  \<open>services/yoloService\<close>, which is imported by the Canvas but is not among the
  sources. The spec gives \<open>w = box.w * pixelWidth\<close>, \<open>h = box.h * pixelHeight\<close>,
  \<open>x = box.x * pixelWidth - w / 2\<close>, \<open>y = box.y * pixelHeight - h / 2\<close>, and the
  inverse producing centre-based normalised coordinates.
\<close>

definition yoloToSvg :: "BBox \<Rightarrow> real \<Rightarrow> real \<Rightarrow> rect" where
  "yoloToSvg box width height =
     \<lparr>rx = bb_x box * width - bb_w box * width / 2,
      ry = bb_y box * height - bb_h box * height / 2,
      rw = bb_w box * width,
      rh = bb_h box * height\<rparr>"

text \<open>
  Modelled from the spec: the inverse of \<open>yoloToSvg\<close>; the result \<open>{x, y, w, h}\<close> is
  kept as a rectangle record holding the normalised centre and size.
\<close>

definition svgToYolo :: "real \<Rightarrow> real \<Rightarrow> real \<Rightarrow> real \<Rightarrow> real \<Rightarrow> real \<Rightarrow> rect" where
  "svgToYolo x y w h width height =
     \<lparr>rx = (x + w / 2) / width,
      ry = (y + h / 2) / height,
      rw = w / width,
      rh = h / height\<rparr>"

text \<open>The object spread \<open>{ ...a, ...newYolo }\<close>: the geometry of \<open>a\<close> is overwritten.\<close>

definition spread :: "BBox \<Rightarrow> rect \<Rightarrow> BBox" where
  "spread a newYolo =
     a\<lparr>bb_x := rx newYolo, bb_y := ry newYolo, bb_w := rw newYolo, bb_h := rh newYolo\<rparr>"

text \<open>The object literal \<open>{ id, labelId, ...newYolo }\<close> of a newly drawn box.\<close>

definition makeBBox :: "string \<Rightarrow> string \<Rightarrow> rect \<Rightarrow> BBox" where
  "makeBBox ident label newYolo =
     \<lparr>bb_id = ident, bb_labelId = label,
      bb_x = rx newYolo, bb_y = ry newYolo, bb_w = rw newYolo, bb_h = rh newYolo\<rparr>"

text \<open>\<open>getMousePos\<close>: viewport to image space.\<close>

definition getMousePos :: "point option \<Rightarrow> point \<Rightarrow> real \<Rightarrow> mouse \<Rightarrow> point" where
  "getMousePos container pn zm e =
     (case container of
        None \<Rightarrow> \<lparr>px = 0, py = 0\<rparr>
      | Some r \<Rightarrow> \<lparr>px = (clientX e - px r - px pn) / zm,
                   py = (clientY e - py r - py pn) / zm\<rparr>)"

section \<open>Snap engine\<close>

text \<open>
  \<open>getSnapLines\<close>: the image bounds, then the two edges of every annotation whose id
  is not the excluded one, in list order.
\<close>

definition getSnapLines :: "real \<Rightarrow> real \<Rightarrow> BBox list \<Rightarrow> string option \<Rightarrow> real list \<times> real list" where
  "getSnapLines width height anns excludeId =
     (let rects = map (\<lambda>ann. yoloToSvg ann width height)
                      (filter (\<lambda>ann. Some (bb_id ann) \<noteq> excludeId) anns)
      in ([0, width] @ concat (map (\<lambda>r. [rx r, rx r + rw r]) rects),
          [0, height] @ concat (map (\<lambda>r. [ry r, ry r + rh r]) rects)))"

text \<open>The body of the \<open>forEach\<close> callback, on the loop variables \<open>(closest, snapped, minD)\<close>.\<close>

definition snap_step :: "real \<Rightarrow> real \<Rightarrow> real \<times> bool \<times> real \<Rightarrow> real \<times> bool \<times> real" where
  "snap_step val line = (\<lambda>(closest, snapped, minD).
     let d = \<bar>val - line\<bar> in
     if d < minD then (line, True, d) else (closest, snapped, minD))"

text \<open>
  \<open>getClosestSnap\<close> of the history-enabled Canvas; the component constant
  \<open>SNAP_DIST_PX\<close> (the prop \<open>snapPixelDistance\<close>) is its first argument. The result is
  the pair \<open>(val, snapped)\<close>.
\<close>

definition getClosestSnap :: "real \<Rightarrow> real \<Rightarrow> real list \<Rightarrow> real \<Rightarrow> real \<times> bool" where
  "getClosestSnap SNAP_DIST_PX val lines threshold =
     (if SNAP_DIST_PX \<le> 0 then (val, False)
      else case fold (snap_step val) lines (val, False, threshold) of
             (closest, snapped, minD) \<Rightarrow> (closest, snapped))"

text \<open>\<open>getClosestSnap\<close> of the MagicBox Canvas: the same loop without the guard.\<close>

definition getClosestSnapM :: "real \<Rightarrow> real list \<Rightarrow> real \<Rightarrow> real \<times> bool" where
  "getClosestSnapM val lines threshold =
     (case fold (snap_step val) lines (val, False, threshold) of
        (closest, snapped, minD) \<Rightarrow> (closest, snapped))"

text \<open>
  The snap function as the specification words it: disabled for a threshold \<open>\<le> 0\<close>;
  otherwise the first candidate, in sequence order, that attains the minimum distance,
  provided that distance is strictly below the threshold.
\<close>

definition closestSnap_spec :: "real \<Rightarrow> real list \<Rightarrow> real \<Rightarrow> real \<times> bool" where
  "closestSnap_spec v cs t =
     (if t \<le> 0 then (v, False)
      else case find (\<lambda>c. \<bar>v - c\<bar> < t \<and> (\<forall>c' \<in> set cs. \<bar>v - c\<bar> \<le> \<bar>v - c'\<bar>)) cs of
             Some c \<Rightarrow> (c, True)
           | None \<Rightarrow> (v, False))"

definition first_nearest :: "real \<Rightarrow> real \<Rightarrow> real list \<Rightarrow> real option" where
  "first_nearest v m cs =
     find (\<lambda>c. \<bar>v - c\<bar> < m \<and> (\<forall>c' \<in> set cs. \<bar>v - c\<bar> \<le> \<bar>v - c'\<bar>)) cs"


section \<open>Host callbacks and shared helpers\<close>

text \<open>
  JavaScript truthiness of a value of type \<open>string | null\<close>: null and the empty string
  are falsy.
\<close>

definition truthy :: "string option \<Rightarrow> bool" where
  "truthy v = (case v of None \<Rightarrow> False | Some str \<Rightarrow> str \<noteq> [])"

text \<open>
  \<open>onUpdateAnnotations\<close> is the host's \<open>updateAnnotations\<close>: the image handed back to
  the Canvas carries the array it was given.
\<close>

definition onUpdateAnnotations :: "annots \<Rightarrow> ('a core_scheme) \<Rightarrow> ('a core_scheme)" where
  "onUpdateAnnotations newAnnotations s = s\<lparr>annotations := newAnnotations\<rparr>"

text \<open>
  \<open>onUpdateAnnotations(image.annotations.map(...))\<close> and
  \<open>onUpdateAnnotations([...image.annotations, newAnn])\<close>: the argument is a newly
  allocated array.
\<close>

definition updateWithNewArray :: "BBox list \<Rightarrow> ('a core_scheme) \<Rightarrow> ('a core_scheme)" where
  "updateWithNewArray newItems s =
     onUpdateAnnotations \<lparr>arr_ref = next_ref s, arr_items = newItems\<rparr>
       (s\<lparr>next_ref := Suc (next_ref s)\<rparr>)"

text \<open>\<open>image.annotations.map(a => a.id === id ? { ...a, ...newYolo } : a)\<close>.\<close>

definition replaceGeometry :: "string \<Rightarrow> rect \<Rightarrow> BBox list \<Rightarrow> BBox list" where
  "replaceGeometry ident newYolo anns =
     map (\<lambda>a. if bb_id a = ident then spread a newYolo else a) anns"

text \<open>\<open>image.annotations.find(a => a.id === id)\<close>.\<close>

definition findAnnotation :: "string \<Rightarrow> BBox list \<Rightarrow> BBox option" where
  "findAnnotation ident anns = find (\<lambda>a. bb_id a = ident) anns"

section \<open>The history-enabled Canvas\<close>

subsection \<open>History\<close>

text \<open>
  The body of the history \<open>useEffect\<close>. In its change-detection branch the effect
  calls \<open>setUndoStack(prev => [...prev, prevAnnotationsRef.current])\<close> and then assigns
  \<open>prevAnnotationsRef.current = image.annotations\<close>. The argument of
  \<open>setUndoStack\<close> is an updater function: React applies it at the next render, and
  only then does it read the ref, which by that time holds the new list. So the model
  first performs the assignments of the effect (\<open>s1\<close>) and then applies the queued
  updater to the result. The other calls of \<open>setUndoStack\<close> and
  \<open>setRedoStack\<close> are given values, or updaters that read nothing which changes
  before the render (\<open>dragStartAnnotationsRef.current\<close> in \<open>handleMouseUp\<close>, the
  constant \<open>image.annotations\<close> in \<open>performUndo\<close> and \<open>performRedo\<close>).
\<close>

definition historyEffect :: "canvas \<Rightarrow> canvas" where
  "historyEffect s =
     (if image_id s \<noteq> prevImageIdRef s then
        s\<lparr>undoStack := [], redoStack := [],
          prevImageIdRef := image_id s, prevAnnotationsRef := annotations s\<rparr>
      else if arr_ref (annotations s) \<noteq> arr_ref (prevAnnotationsRef s) then
        (if isHistoryAction s then s
         else (let s1 = s\<lparr>prevAnnotationsRef := annotations s, isUndoRedo := False\<rparr>
               in if \<not> isUndoRedo s
                  then s1\<lparr>undoStack := undoStack s1 @ [prevAnnotationsRef s1], redoStack := []\<rparr>
                  else s1))
      else s)"

text \<open>
  After every handler the component renders again, and the effect runs when one of its
  dependencies \<open>[image.id, image.annotations]\<close> is not the same as at the last render.
\<close>

definition render :: "canvas \<Rightarrow> canvas" where
  "render s =
     (if effect_deps s = (image_id s, arr_ref (annotations s)) then s
      else (historyEffect s)\<lparr>effect_deps := (image_id s, arr_ref (annotations s))\<rparr>)"

definition performUndo :: "canvas \<Rightarrow> canvas" where
  "performUndo s =
     (if undoStack s = [] then s
      else let prevState = last (undoStack s)
           in onUpdateAnnotations prevState
                (s\<lparr>isUndoRedo := True,
                   redoStack := redoStack s @ [annotations s],
                   undoStack := butlast (undoStack s)\<rparr>))"

definition performRedo :: "canvas \<Rightarrow> canvas" where
  "performRedo s =
     (if redoStack s = [] then s
      else let nextState = last (redoStack s)
           in onUpdateAnnotations nextState
                (s\<lparr>isUndoRedo := True,
                   undoStack := undoStack s @ [annotations s],
                   redoStack := butlast (redoStack s)\<rparr>))"

subsection \<open>Pointer handlers\<close>

definition handleMouseDown :: "mouse \<Rightarrow> canvas \<Rightarrow> canvas" where
  "handleMouseDown e s =
     (let p = getMousePos (containerRect s) (pan s) (zoom s) e;
          s1 = (if mode s = DRAW \<or> mode s = SELECT
                then s\<lparr>dragStartAnnotationsRef := annotations s, isHistoryAction := True\<rparr>
                else s)
      in if mode s = PAN then
           s1\<lparr>isDragging := True, dragStart := Some \<lparr>px = clientX e, py = clientY e\<rparr>\<rparr>
         else if mode s = DRAW \<or> mode s = MAGIC_BOX then
           s1\<lparr>isDragging := True,
              activeCreation := Some \<lparr>rx = px p, ry = py p, rw = 0, rh = 0\<rparr>,
              dragStart := Some p,
              selectedAnnotationId := None\<rparr>
         else if mode s = SELECT then s1\<lparr>selectedAnnotationId := None\<rparr>
         else s1)"

text \<open>The handler on an annotation's body; called only in \<open>SELECT\<close> mode (see \<open>dispatch\<close>).\<close>

definition handleAnnotationMouseDown :: "mouse \<Rightarrow> string \<Rightarrow> canvas \<Rightarrow> canvas" where
  "handleAnnotationMouseDown e ident s =
     (if mode s \<noteq> SELECT then s
      else let s1 = s\<lparr>selectedAnnotationId := Some ident\<rparr>
           in case findAnnotation ident (arr_items (annotations s)) of
                None \<Rightarrow> s1
              | Some ann \<Rightarrow>
                  s1\<lparr>dragStartAnnotationsRef := annotations s,
                     isHistoryAction := True,
                     draggingAnnotationId := Some ident,
                     initialMoveRect := Some (yoloToSvg ann (image_width s) (image_height s)),
                     dragStart := Some (getMousePos (containerRect s) (pan s) (zoom s) e)\<rparr>)"

definition handleResizeMouseDown :: "mouse \<Rightarrow> ResizeHandleType \<Rightarrow> string \<Rightarrow> canvas \<Rightarrow> canvas" where
  "handleResizeMouseDown e handle ident s =
     (if mode s \<noteq> SELECT then s
      else s\<lparr>dragStartAnnotationsRef := annotations s,
             isHistoryAction := True,
             resizeHandle := Some handle,
             draggingAnnotationId := None\<rparr>)"

text \<open>
  The four-way case on the handle in the resize branch: width and height are recomputed
  from the opposite corner, with no clamp.
\<close>

definition resizeRect :: "ResizeHandleType \<Rightarrow> rect \<Rightarrow> real \<Rightarrow> real \<Rightarrow> rect" where
  "resizeRect handle r mx my =
     (case handle of
        TL \<Rightarrow> \<lparr>rx = mx, ry = my, rw = (rx r + rw r) - mx, rh = (ry r + rh r) - my\<rparr>
      | TR \<Rightarrow> \<lparr>rx = rx r, ry = my, rw = mx - rx r, rh = (ry r + rh r) - my\<rparr>
      | BL \<Rightarrow> \<lparr>rx = mx, ry = ry r, rw = (rx r + rw r) - mx, rh = my - ry r\<rparr>
      | BR \<Rightarrow> \<lparr>rx = rx r, ry = ry r, rw = mx - rx r, rh = my - ry r\<rparr>)"

text \<open>The \<open>DRAW\<close> branch of \<open>handleMouseMove\<close>.\<close>

definition drawMove :: "point \<Rightarrow> real \<Rightarrow> canvas \<Rightarrow> canvas" where
  "drawMove p threshold s =
     (let ds = the (dragStart s);
          (xLines, yLines) =
             getSnapLines (image_width s) (image_height s) (arr_items (annotations s)) None;
          sx = getClosestSnap (snapPixelDistance s) (px p) xLines threshold;
          sy = getClosestSnap (snapPixelDistance s) (py p) yLines threshold;
          currentX = fst sx;
          currentY = fst sy
      in s\<lparr>activeCreation :=
              Some \<lparr>rx = min (px ds) currentX, ry = min (py ds) currentY,
                    rw = \<bar>currentX - px ds\<bar>, rh = \<bar>currentY - py ds\<bar>\<rparr>,
           activeSnapLines :=
              (if snd sx then Some (fst sx) else None, if snd sy then Some (fst sy) else None)\<rparr>)"

text \<open>The resize branch of \<open>handleMouseMove\<close>.\<close>

definition resizeMove :: "point \<Rightarrow> real \<Rightarrow> canvas \<Rightarrow> canvas" where
  "resizeMove p threshold s =
     (let sel = the (selectedAnnotationId s)
      in case findAnnotation sel (arr_items (annotations s)) of
           None \<Rightarrow> s
         | Some ann \<Rightarrow>
             (let r = yoloToSvg ann (image_width s) (image_height s);
                  (xLines, yLines) =
                     getSnapLines (image_width s) (image_height s) (arr_items (annotations s))
                       (selectedAnnotationId s);
                  sx = getClosestSnap (snapPixelDistance s) (px p) xLines threshold;
                  sy = getClosestSnap (snapPixelDistance s) (py p) yLines threshold;
                  n = resizeRect (the (resizeHandle s)) r (fst sx) (fst sy);
                  s1 = (if rw n > 0 \<and> rh n > 0
                        then updateWithNewArray
                               (replaceGeometry sel
                                  (svgToYolo (rx n) (ry n) (rw n) (rh n)
                                     (image_width s) (image_height s))
                                  (arr_items (annotations s))) s
                        else s)
              in s1\<lparr>activeSnapLines :=
                      (if snd sx then Some (fst sx) else None,
                       if snd sy then Some (fst sy) else None)\<rparr>))"

text \<open>
  Snapping of one axis of a moving box: the leading edge first, then the trailing edge,
  else the raw position. The result is the new position and the guide line to show.
\<close>

definition snapEdges :: "real \<times> bool \<Rightarrow> real \<times> bool \<Rightarrow> real \<Rightarrow> real \<Rightarrow> real \<times> real option" where
  "snapEdges snapLeading snapTrailing extent raw =
     (if snd snapLeading then (fst snapLeading, Some (fst snapLeading))
      else if snd snapTrailing then (fst snapTrailing - extent, Some (fst snapTrailing))
      else (raw, None))"

text \<open>The move branch of \<open>handleMouseMove\<close>.\<close>

definition dragMove :: "point \<Rightarrow> real \<Rightarrow> canvas \<Rightarrow> canvas" where
  "dragMove p threshold s =
     (let ds = the (dragStart s);
          r0 = the (initialMoveRect s);
          ident = the (draggingAnnotationId s);
          dx = px p - px ds;
          dy = py p - py ds;
          newX = rx r0 + dx;
          newY = ry r0 + dy;
          (xLines, yLines) =
             getSnapLines (image_width s) (image_height s) (arr_items (annotations s))
               (draggingAnnotationId s);
          snapL = getClosestSnap (snapPixelDistance s) newX xLines threshold;
          snapR = getClosestSnap (snapPixelDistance s) (newX + rw r0) xLines threshold;
          snapT = getClosestSnap (snapPixelDistance s) newY yLines threshold;
          snapB = getClosestSnap (snapPixelDistance s) (newY + rh r0) yLines threshold;
          ax = snapEdges snapL snapR (rw r0) newX;
          ay = snapEdges snapT snapB (rh r0) newY
      in (updateWithNewArray
            (replaceGeometry ident
               (svgToYolo (fst ax) (fst ay) (rw r0) (rh r0) (image_width s) (image_height s))
               (arr_items (annotations s))) s)
         \<lparr>activeSnapLines := (snd ax, snd ay)\<rparr>)"

definition handleMouseMove :: "mouse \<Rightarrow> canvas \<Rightarrow> canvas" where
  "handleMouseMove e s =
     (if mode s = PAN \<and> isDragging s \<and> dragStart s \<noteq> None then
        (let ds = the (dragStart s);
             dx = clientX e - px ds;
             dy = clientY e - py ds
         in s\<lparr>pan := \<lparr>px = px (pan s) + dx, py = py (pan s) + dy\<rparr>,
              dragStart := Some \<lparr>px = clientX e, py = clientY e\<rparr>\<rparr>)
      else
        (let p = getMousePos (containerRect s) (pan s) (zoom s) e;
             threshold = snapPixelDistance s / zoom s
         in if mode s = DRAW \<and> isDragging s \<and> dragStart s \<noteq> None then
              drawMove p threshold s
            else if mode s = SELECT \<and> resizeHandle s \<noteq> None \<and> truthy (selectedAnnotationId s) then
              resizeMove p threshold s
            else
              (let s1 = (if mode s = SELECT \<and> truthy (draggingAnnotationId s)
                            \<and> initialMoveRect s \<noteq> None \<and> dragStart s \<noteq> None
                         then dragMove p threshold s
                         else s)
               in if \<not> isDragging s \<and> resizeHandle s = None \<and> \<not> truthy (draggingAnnotationId s)
                  then s1\<lparr>activeSnapLines := (None, None)\<rparr>
                  else s1)))"

text \<open>
  \<open>handleMouseUp\<close> (also bound to mouse-leave). The argument is the value
  \<open>crypto.randomUUID()\<close> returns if the handler calls it.
\<close>

definition handleMouseUp :: "string \<Rightarrow> canvas \<Rightarrow> canvas" where
  "handleMouseUp uuid s =
     (let s1 = (if isHistoryAction s then
                  (if arr_ref (annotations s) \<noteq> arr_ref (dragStartAnnotationsRef s)
                   then s\<lparr>undoStack := undoStack s @ [dragStartAnnotationsRef s],
                          redoStack := [],
                          prevAnnotationsRef := annotations s\<rparr>
                   else s)\<lparr>isHistoryAction := False\<rparr>
                else s);
          s2 = (if mode s = DRAW \<and> activeCreation s \<noteq> None then
                  (let ac = the (activeCreation s)
                   in if rw ac > 5 \<and> rh ac > 5 then
                        (let newYolo = svgToYolo (rx ac) (ry ac) (rw ac) (rh ac)
                                         (image_width s) (image_height s);
                             newAnn = makeBBox uuid (currentLabelId s) newYolo
                         in (updateWithNewArray (arr_items (annotations s) @ [newAnn]) s1)
                            \<lparr>selectedAnnotationId := Some uuid\<rparr>)
                      else s1)
                else s1)
      in s2\<lparr>isDragging := False, dragStart := None, activeCreation := None,
            draggingAnnotationId := None, resizeHandle := None, initialMoveRect := None,
            activeSnapLines := (None, None)\<rparr>)"

subsection \<open>Events\<close>

text \<open>
  The events the component receives. A mouse-down on an annotation body or on a corner
  handle reaches the container's \<open>handleMouseDown\<close> unless the inner handler stops the
  propagation, which it does only past its \<open>mode !== SELECT\<close> guard. The host can
  replace the image (\<open>SetImage\<close>: id, width, height, annotations) or the annotation
  array of the current image (\<open>HostUpdate\<close>, e.g. a delete or an automatic labelling).
\<close>

datatype event =
    MouseDown mouse
  | AnnotationMouseDown mouse string
  | ResizeMouseDown mouse ResizeHandleType string
  | MouseMove mouse
  | MouseUp string
  | Undo
  | Redo
  | SetImage string real real annots
  | HostUpdate "BBox list"

fun dispatch :: "event \<Rightarrow> canvas \<Rightarrow> canvas" where
  "dispatch (MouseDown e) s = handleMouseDown e s"
| "dispatch (AnnotationMouseDown e ident) s =
     (if mode s \<noteq> SELECT then handleMouseDown e s else handleAnnotationMouseDown e ident s)"
| "dispatch (ResizeMouseDown e handle ident) s =
     (if mode s \<noteq> SELECT then handleMouseDown e s else handleResizeMouseDown e handle ident s)"
| "dispatch (MouseMove e) s = handleMouseMove e s"
| "dispatch (MouseUp uuid) s = handleMouseUp uuid s"
| "dispatch Undo s = performUndo s"
| "dispatch Redo s = performRedo s"
| "dispatch (SetImage ident width height anns) s =
     s\<lparr>image_id := ident, image_width := width, image_height := height, annotations := anns\<rparr>"
| "dispatch (HostUpdate newItems) s = updateWithNewArray newItems s"

text \<open>
  One event: the handler runs, then the component renders and its effect may run. Every
  handler sees the props and state of the latest render; updates queued faster than React
  renders are outside the model.
\<close>

definition step :: "event \<Rightarrow> canvas \<Rightarrow> canvas" where
  "step ev s = render (dispatch ev s)"

text \<open>A sequence of events.\<close>

definition run :: "event list \<Rightarrow> canvas \<Rightarrow> canvas" where
  "run evs s = fold step evs s"


section \<open>The MagicBox Canvas\<close>

text \<open>\<open>SNAP_DIST_PX\<close> of this revision: a constant.\<close>

definition SNAP_DIST_PX_M :: real where
  "SNAP_DIST_PX_M = 12"

definition handleMouseDownM :: "mouse \<Rightarrow> canvasM \<Rightarrow> canvasM" where
  "handleMouseDownM e s =
     (let p = getMousePos (containerRect s) (pan s) (zoom s) e
      in if mode s = PAN then
           s\<lparr>isDragging := True, dragStart := Some \<lparr>px = clientX e, py = clientY e\<rparr>\<rparr>
         else if mode s = DRAW \<or> mode s = MAGIC_BOX then
           s\<lparr>isDragging := True,
             activeCreation := Some \<lparr>rx = px p, ry = py p, rw = 0, rh = 0\<rparr>,
             dragStart := Some p,
             selectedAnnotationId := None\<rparr>
         else if mode s = SELECT then s\<lparr>selectedAnnotationId := None\<rparr>
         else s)"

definition handleAnnMouseDownM :: "mouse \<Rightarrow> string \<Rightarrow> canvasM \<Rightarrow> canvasM" where
  "handleAnnMouseDownM e ident s =
     (if mode s = SELECT then
        (let s1 = s\<lparr>selectedAnnotationId := Some ident,
                    isDragging := True,
                    dragStart := Some (getMousePos (containerRect s) (pan s) (zoom s) e)\<rparr>
         in case findAnnotation ident (arr_items (annotations s)) of
              None \<Rightarrow> s1
            | Some ann \<Rightarrow>
                s1\<lparr>draggingAnnotationId := Some ident,
                   initialMoveRect := Some (yoloToSvg ann (image_width s) (image_height s))\<rparr>)
      else s)"

definition handleResizeStartM :: "mouse \<Rightarrow> ResizeHandleType \<Rightarrow> canvasM \<Rightarrow> canvasM" where
  "handleResizeStartM e handle s = s\<lparr>resizeHandle := Some handle, isDragging := True\<rparr>"

text \<open>
  The four-way case on the handle in the resize branch of this revision: the moving
  corner is limited so that the box keeps 5 pixels in each dimension.
\<close>

definition resizeRectM :: "ResizeHandleType \<Rightarrow> rect \<Rightarrow> real \<Rightarrow> real \<Rightarrow> rect" where
  "resizeRectM handle r effX effY =
     (case handle of
        TL \<Rightarrow>
          (let brX = rx r + rw r; brY = ry r + rh r;
               newX = min effX (brX - 5); newY = min effY (brY - 5)
           in \<lparr>rx = newX, ry = newY, rw = brX - newX, rh = brY - newY\<rparr>)
      | TR \<Rightarrow>
          (let blX = rx r; blY = ry r + rh r;
               newY = min effY (blY - 5)
           in \<lparr>rx = rx r, ry = newY, rw = max (effX - blX) 5, rh = blY - newY\<rparr>)
      | BL \<Rightarrow>
          (let trX = rx r + rw r; trY = ry r;
               newX = min effX (trX - 5)
           in \<lparr>rx = newX, ry = ry r, rw = trX - newX, rh = max (effY - trY) 5\<rparr>)
      | BR \<Rightarrow>
          (let tlX = rx r; tlY = ry r
           in \<lparr>rx = rx r, ry = ry r, rw = max (effX - tlX) 5, rh = max (effY - tlY) 5\<rparr>))"

definition drawMoveM :: "point \<Rightarrow> real \<Rightarrow> canvasM \<Rightarrow> canvasM" where
  "drawMoveM p threshold s =
     (let ds = the (dragStart s);
          (xLines, yLines) =
             getSnapLines (image_width s) (image_height s) (arr_items (annotations s)) None;
          sx = getClosestSnapM (px p) xLines threshold;
          sy = getClosestSnapM (py p) yLines threshold;
          currentX = fst sx;
          currentY = fst sy
      in s\<lparr>activeCreation :=
              Some \<lparr>rx = min (px ds) currentX, ry = min (py ds) currentY,
                    rw = \<bar>currentX - px ds\<bar>, rh = \<bar>currentY - py ds\<bar>\<rparr>,
           activeSnapLines :=
              (if snd sx then Some (fst sx) else None, if snd sy then Some (fst sy) else None)\<rparr>)"

definition resizeMoveM :: "point \<Rightarrow> real \<Rightarrow> canvasM \<Rightarrow> canvasM" where
  "resizeMoveM p threshold s =
     (let sel = the (selectedAnnotationId s);
          (xLines, yLines) =
             getSnapLines (image_width s) (image_height s) (arr_items (annotations s))
               (selectedAnnotationId s);
          sx = getClosestSnapM (px p) xLines threshold;
          sy = getClosestSnapM (py p) yLines threshold;
          s1 = (case findAnnotation sel (arr_items (annotations s)) of
                  None \<Rightarrow> s
                | Some ann \<Rightarrow>
                    (let r = yoloToSvg ann (image_width s) (image_height s);
                         n = resizeRectM (the (resizeHandle s)) r (fst sx) (fst sy)
                     in updateWithNewArray
                          (replaceGeometry (bb_id ann)
                             (svgToYolo (rx n) (ry n) (rw n) (rh n)
                                (image_width s) (image_height s))
                             (arr_items (annotations s))) s))
      in s1\<lparr>activeSnapLines :=
              (if snd sx then Some (fst sx) else None,
               if snd sy then Some (fst sy) else None)\<rparr>)"

definition dragMoveM :: "point \<Rightarrow> real \<Rightarrow> canvasM \<Rightarrow> canvasM" where
  "dragMoveM p threshold s =
     (let ds = the (dragStart s);
          r0 = the (initialMoveRect s);
          ident = the (draggingAnnotationId s);
          (xLines, yLines) =
             getSnapLines (image_width s) (image_height s) (arr_items (annotations s))
               (draggingAnnotationId s);
          dx = px p - px ds;
          dy = py p - py ds;
          proposedX = rx r0 + dx;
          proposedY = ry r0 + dy;
          snapLeft = getClosestSnapM proposedX xLines threshold;
          snapRight = getClosestSnapM (proposedX + rw r0) xLines threshold;
          ax = snapEdges snapLeft snapRight (rw r0) proposedX;
          snapTop = getClosestSnapM proposedY yLines threshold;
          snapBottom = getClosestSnapM (proposedY + rh r0) yLines threshold;
          ay = snapEdges snapTop snapBottom (rh r0) proposedY
      in (updateWithNewArray
            (replaceGeometry ident
               (svgToYolo (fst ax) (fst ay) (rw r0) (rh r0) (image_width s) (image_height s))
               (arr_items (annotations s))) s)
         \<lparr>activeSnapLines := (snd ax, snd ay)\<rparr>)"

definition handleMouseMoveM :: "mouse \<Rightarrow> canvasM \<Rightarrow> canvasM" where
  "handleMouseMoveM e s =
     (if mode s = PAN \<and> isDragging s \<and> dragStart s \<noteq> None then
        (let ds = the (dragStart s);
             dx = clientX e - px ds;
             dy = clientY e - py ds
         in s\<lparr>pan := \<lparr>px = px (pan s) + dx, py = py (pan s) + dy\<rparr>,
              dragStart := Some \<lparr>px = clientX e, py = clientY e\<rparr>\<rparr>)
      else
        (let p = getMousePos (containerRect s) (pan s) (zoom s) e;
             threshold = SNAP_DIST_PX_M / zoom s
         in if (mode s = DRAW \<or> mode s = MAGIC_BOX) \<and> isDragging s \<and> dragStart s \<noteq> None then
              drawMoveM p threshold s
            else if mode s = SELECT \<and> resizeHandle s \<noteq> None \<and> truthy (selectedAnnotationId s) then
              resizeMoveM p threshold s
            else if mode s = SELECT \<and> isDragging s \<and> truthy (draggingAnnotationId s)
                      \<and> initialMoveRect s \<noteq> None \<and> dragStart s \<noteq> None then
              dragMoveM p threshold s
            else s))"

text \<open>
  \<open>handleMouseUp\<close> of this revision (also bound to mouse-leave); the argument is the
  value of \<open>crypto.randomUUID()\<close>.
\<close>

definition handleMouseUpM :: "string \<Rightarrow> canvasM \<Rightarrow> canvasM" where
  "handleMouseUpM uuid s =
     (let s1 = (case activeCreation s of
                  None \<Rightarrow> s
                | Some ac \<Rightarrow>
                    (let s2 = (if rw ac > 5 \<and> rh ac > 5 then
                                 (if mode s = DRAW then
                                    (let yoloBox = svgToYolo (rx ac) (ry ac) (rw ac) (rh ac)
                                                     (image_width s) (image_height s);
                                         newAnn = makeBBox uuid (currentLabelId s) yoloBox
                                     in (updateWithNewArray (arr_items (annotations s) @ [newAnn]) s)
                                        \<lparr>selectedAnnotationId := Some uuid\<rparr>)
                                  else if mode s = MAGIC_BOX \<and> onMagicBoxSelect s then
                                    s\<lparr>magicBoxCalls := magicBoxCalls s @ [ac]\<rparr>
                                  else s)
                               else s)
                     in s2\<lparr>activeCreation := None\<rparr>))
      in s1\<lparr>isDragging := False, dragStart := None, draggingAnnotationId := None,
            initialMoveRect := None, resizeHandle := None, activeSnapLines := (None, None)\<rparr>)"

datatype eventM =
    MouseDownM mouse
  | AnnMouseDownM mouse string
  | ResizeStartM mouse ResizeHandleType
  | MouseMoveM mouse
  | MouseUpM string

fun stepM :: "eventM \<Rightarrow> canvasM \<Rightarrow> canvasM" where
  "stepM (MouseDownM e) s = handleMouseDownM e s"
| "stepM (AnnMouseDownM e ident) s = handleAnnMouseDownM e ident s"
| "stepM (ResizeStartM e handle) s = handleResizeStartM e handle s"
| "stepM (MouseMoveM e) s = handleMouseMoveM e s"
| "stepM (MouseUpM uuid) s = handleMouseUpM uuid s"

text \<open>A sequence of events of the MagicBox Canvas.\<close>

definition runM :: "eventM list \<Rightarrow> canvasM \<Rightarrow> canvasM" where
  "runM evs s = fold stepM evs s"

section \<open>States of the history-enabled Canvas\<close>

text \<open>
  The state right after a render: the effect has seen the current dependencies, and the
  image id it remembers is the current one.
\<close>

definition rendered :: "canvas \<Rightarrow> bool" where
  "rendered s \<longleftrightarrow>
     effect_deps s = (image_id s, arr_ref (annotations s)) \<and> prevImageIdRef s = image_id s"

text \<open>The interaction cells as \<open>handleMouseUp\<close> leaves them (and as they start).\<close>

definition released :: "canvas \<Rightarrow> bool" where
  "released s \<longleftrightarrow>
     \<not> isDragging s \<and> dragStart s = None \<and> activeCreation s = None \<and>
     draggingAnnotationId s = None \<and> resizeHandle s = None \<and> initialMoveRect s = None"

text \<open>
  No gesture in progress: rendered, released, both flags down, the remembered list is the
  current one, and the current array's identity has been allocated.
\<close>

definition idle :: "canvas \<Rightarrow> bool" where
  "idle s \<longleftrightarrow>
     rendered s \<and> released s \<and> \<not> isHistoryAction s \<and> \<not> isUndoRedo s \<and>
     prevAnnotationsRef s = annotations s \<and> arr_ref (annotations s) < next_ref s"

text \<open>The three pointer-down events: on the empty canvas, on a box, on a corner handle.\<close>

definition pointer_down :: "event \<Rightarrow> bool" where
  "pointer_down ev =
     (case ev of
        MouseDown e \<Rightarrow> True
      | AnnotationMouseDown e ident \<Rightarrow> True
      | ResizeMouseDown e handle ident \<Rightarrow> True
      | _ \<Rightarrow> False)"

text \<open>
  The invariant of a gesture that started in state \<open>s0\<close>: the stacks and the
  remembered list are still those of \<open>s0\<close>; the list is the one of \<open>s0\<close> or,
  in \<open>SELECT\<close> mode with the flag up, an array allocated since; the flag is up
  unless no move can commit a list.
\<close>

definition in_gesture :: "canvas \<Rightarrow> canvas \<Rightarrow> bool" where
  "in_gesture s0 s \<longleftrightarrow>
     rendered s \<and> image_id s = image_id s0 \<and> mode s = mode s0 \<and>
     undoStack s = undoStack s0 \<and> redoStack s = redoStack s0 \<and>
     prevAnnotationsRef s = annotations s0 \<and> \<not> isUndoRedo s \<and>
     arr_ref (annotations s0) < next_ref s0 \<and> next_ref s0 \<le> next_ref s \<and>
     (annotations s = annotations s0 \<or>
      (mode s = SELECT \<and> isHistoryAction s \<and>
       next_ref s0 \<le> arr_ref (annotations s) \<and> arr_ref (annotations s) < next_ref s)) \<and>
     (isHistoryAction s \<longrightarrow> dragStartAnnotationsRef s = annotations s0) \<and>
     (\<not> isHistoryAction s \<longrightarrow>
        mode s \<noteq> DRAW \<and> resizeHandle s = None \<and> draggingAnnotationId s = None)"

text \<open>The condition under which \<open>handleMouseUp\<close> appends the drawn box.\<close>

definition finalizes :: "canvas \<Rightarrow> bool" where
  "finalizes s \<longleftrightarrow>
     mode s = DRAW \<and> activeCreation s \<noteq> None \<and>
     rw (the (activeCreation s)) > 5 \<and> rh (the (activeCreation s)) > 5"

text \<open>The cells of a move gesture in progress: the move branch of \<open>handleMouseMove\<close> runs.\<close>

definition dragging :: "canvas \<Rightarrow> bool" where
  "dragging s \<longleftrightarrow>
     mode s = SELECT \<and> resizeHandle s = None \<and> truthy (draggingAnnotationId s) \<and>
     initialMoveRect s \<noteq> None \<and> dragStart s \<noteq> None"

text \<open>
  The cells of a draw gesture in progress, started in \<open>s0\<close>: the \<open>DRAW\<close> branch
  of \<open>handleMouseMove\<close> runs and there is a rectangle being drawn.
\<close>

definition creating :: "canvas \<Rightarrow> canvas \<Rightarrow> bool" where
  "creating s0 s \<longleftrightarrow>
     mode s = DRAW \<and> isDragging s \<and> dragStart s \<noteq> None \<and> activeCreation s \<noteq> None \<and>
     currentLabelId s = currentLabelId s0 \<and>
     image_width s = image_width s0 \<and> image_height s = image_height s0"

section \<open>Gestures in progress\<close>

text \<open>The cells of a move gesture in progress in the MagicBox Canvas.\<close>

definition draggingM :: "canvasM \<Rightarrow> bool" where
  "draggingM s \<longleftrightarrow>
     mode s = SELECT \<and> resizeHandle s = None \<and> isDragging s \<and>
     truthy (draggingAnnotationId s) \<and> initialMoveRect s \<noteq> None \<and> dragStart s \<noteq> None"

text \<open>
  The cells of a resize gesture in progress, in either revision: the resize branch of the
  move handler runs, on the first box \<open>ann\<close> carrying the selected id.
\<close>

definition resizing :: "'a core_scheme \<Rightarrow> ResizeHandleType \<Rightarrow> BBox \<Rightarrow> bool" where
  "resizing s handle ann \<longleftrightarrow>
     mode s = SELECT \<and> resizeHandle s = Some handle \<and> truthy (selectedAnnotationId s) \<and>
     findAnnotation (the (selectedAnnotationId s)) (arr_items (annotations s)) = Some ann"

section \<open>Outcomes as the specification words them\<close>

text \<open>
  Where the specification puts one axis of a moving box: by the leading edge if that edge
  snapped; otherwise by the trailing edge if that one snapped; otherwise at the raw
  position.
\<close>

definition edge_placed :: "real \<times> bool \<Rightarrow> real \<times> bool \<Rightarrow> real \<Rightarrow> real \<Rightarrow> real \<Rightarrow> bool" where
  "edge_placed leading trailing raw extent pos \<longleftrightarrow>
     (snd leading \<longrightarrow> pos = fst leading) \<and>
     (\<not> snd leading \<and> snd trailing \<longrightarrow> pos + extent = fst trailing) \<and>
     (\<not> snd leading \<and> \<not> snd trailing \<longrightarrow> pos = raw)"

text \<open>
  The outcome of a move event as the specification words it: the boxes with the dragged id
  keep id, label and the pixel size of the gesture's initial rectangle, and are placed on
  each axis as \<open>edge_placed\<close> says, against the candidate lines of the other boxes;
  every other box is untouched.
\<close>

definition move_outcome ::
  "real \<Rightarrow> real \<Rightarrow> string \<Rightarrow> rect \<Rightarrow> real \<Rightarrow> real \<Rightarrow> real \<Rightarrow> BBox list \<Rightarrow> BBox list \<Rightarrow> bool" where
  "move_outcome width height ident r0 rawX rawY t anns anns' \<longleftrightarrow>
     (let lines = getSnapLines width height anns (Some ident);
          snapL = closestSnap_spec rawX (fst lines) t;
          snapR = closestSnap_spec (rawX + rw r0) (fst lines) t;
          snapT = closestSnap_spec rawY (snd lines) t;
          snapB = closestSnap_spec (rawY + rh r0) (snd lines) t
      in length anns' = length anns \<and>
         (\<forall>i < length anns.
            let a = anns ! i; a' = anns' ! i; r = yoloToSvg a' width height
            in if bb_id a = ident
               then bb_id a' = ident \<and> bb_labelId a' = bb_labelId a \<and>
                    rw r = rw r0 \<and> rh r = rh r0 \<and>
                    edge_placed snapL snapR rawX (rw r0) (rx r) \<and>
                    edge_placed snapT snapB rawY (rh r0) (ry r)
               else a' = a))"

text \<open>
  The pointer-controlled corner after snapping, as the specification has it: each
  coordinate of the pointer's image position snapped against the candidate lines of the
  other boxes, with the screen distance divided by the zoom.
\<close>

definition snapped_pointer :: "'a core_scheme \<Rightarrow> real \<Rightarrow> mouse \<Rightarrow> real \<times> real" where
  "snapped_pointer s snapDist e =
     (let p = getMousePos (containerRect s) (pan s) (zoom s) e;
          lines = getSnapLines (image_width s) (image_height s) (arr_items (annotations s))
                    (selectedAnnotationId s);
          t = snapDist / zoom s
      in (fst (closestSnap_spec (px p) (fst lines) t), fst (closestSnap_spec (py p) (snd lines) t)))"

text \<open>Width and height recomputed from the fixed opposite corner to the moving corner.\<close>

definition recomputed :: "ResizeHandleType \<Rightarrow> rect \<Rightarrow> real \<Rightarrow> real \<Rightarrow> real \<times> real" where
  "recomputed handle r mx my =
     (case handle of
        TL \<Rightarrow> ((rx r + rw r) - mx, (ry r + rh r) - my)
      | TR \<Rightarrow> (mx - rx r, (ry r + rh r) - my)
      | BL \<Rightarrow> ((rx r + rw r) - mx, my - ry r)
      | BR \<Rightarrow> (mx - rx r, my - ry r))"

text \<open>The corner opposite to the handle is where it was.\<close>

definition opposite_fixed :: "ResizeHandleType \<Rightarrow> rect \<Rightarrow> rect \<Rightarrow> bool" where
  "opposite_fixed handle r n =
     (case handle of
        TL \<Rightarrow> rx n + rw n = rx r + rw r \<and> ry n + rh n = ry r + rh r
      | TR \<Rightarrow> rx n = rx r \<and> ry n + rh n = ry r + rh r
      | BL \<Rightarrow> rx n + rw n = rx r + rw r \<and> ry n = ry r
      | BR \<Rightarrow> rx n = rx r \<and> ry n = ry r)"

text \<open>
  The outcome of a resize event as the specification words it: the boxes with the selected
  id get the recomputed width and height, each raised to at least 5 pixels, with the
  opposite corner fixed (so a bottom-right handle dragged to the left of and above the
  top-left corner gives 5 by 5); every other box is untouched.
\<close>

definition resize_clamped ::
  "real \<Rightarrow> real \<Rightarrow> string \<Rightarrow> ResizeHandleType \<Rightarrow> rect \<Rightarrow> real \<times> real \<Rightarrow> BBox list \<Rightarrow> BBox list \<Rightarrow> bool" where
  "resize_clamped width height ident handle r corner anns anns' \<longleftrightarrow>
     length anns' = length anns \<and>
     (\<forall>i < length anns.
        let a = anns ! i; a' = anns' ! i; n = yoloToSvg a' width height;
            rc = recomputed handle r (fst corner) (snd corner)
        in if bb_id a = ident
           then bb_id a' = ident \<and> bb_labelId a' = bb_labelId a \<and>
                rw n = max (fst rc) 5 \<and> rh n = max (snd rc) 5 \<and>
                5 \<le> rw n \<and> 5 \<le> rh n \<and> opposite_fixed handle r n \<and>
                (handle = BR \<and> fst corner \<le> rx r \<and> snd corner \<le> ry r \<longrightarrow> rw n = 5 \<and> rh n = 5)
           else a' = a)"

text \<open>
  The outcome of an accepted resize event in the history-enabled Canvas: the recomputed
  width and height as they are, both positive, with the opposite corner fixed.
\<close>

definition resize_unclamped ::
  "real \<Rightarrow> real \<Rightarrow> string \<Rightarrow> ResizeHandleType \<Rightarrow> rect \<Rightarrow> real \<times> real \<Rightarrow> BBox list \<Rightarrow> BBox list \<Rightarrow> bool" where
  "resize_unclamped width height ident handle r corner anns anns' \<longleftrightarrow>
     length anns' = length anns \<and>
     (\<forall>i < length anns.
        let a = anns ! i; a' = anns' ! i; n = yoloToSvg a' width height;
            rc = recomputed handle r (fst corner) (snd corner)
        in if bb_id a = ident
           then bb_id a' = ident \<and> bb_labelId a' = bb_labelId a \<and>
                rw n = fst rc \<and> rh n = snd rc \<and> 0 < rw n \<and> 0 < rh n \<and>
                opposite_fixed handle r n
           else a' = a)"

section \<open>The data-model invariant\<close>

text \<open>The data-model invariant of a list: every box has positive width and height.\<close>

definition valid_boxes :: "BBox list \<Rightarrow> bool" where
  "valid_boxes anns \<longleftrightarrow> (\<forall>b \<in> set anns. 0 < bb_w b \<and> 0 < bb_h b)"

text \<open>
  The invariant on what both revisions share: a positive image size, a valid current list,
  and a positive initial rectangle while a move gesture holds one.
\<close>

definition valid_core :: "'a core_scheme \<Rightarrow> bool" where
  "valid_core s \<longleftrightarrow>
     0 < image_width s \<and> 0 < image_height s \<and>
     valid_boxes (arr_items (annotations s)) \<and>
     (\<forall>r. initialMoveRect s = Some r \<longrightarrow> 0 < rw r \<and> 0 < rh r)"

text \<open>
  In the history-enabled Canvas the invariant also covers every list the component keeps:
  the snapshots on both stacks and the two remembered lists.
\<close>

definition valid_canvas :: "canvas \<Rightarrow> bool" where
  "valid_canvas s \<longleftrightarrow>
     valid_core s \<and>
     (\<forall>a \<in> set (undoStack s). valid_boxes (arr_items a)) \<and>
     (\<forall>a \<in> set (redoStack s). valid_boxes (arr_items a)) \<and>
     valid_boxes (arr_items (prevAnnotationsRef s)) \<and>
     valid_boxes (arr_items (dragStartAnnotationsRef s))"

text \<open>
  The editor's own events carry no list. The host's events do: they are valid when the
  list they bring is (and the image size is positive).
\<close>

definition valid_event :: "event \<Rightarrow> bool" where
  "valid_event ev =
     (case ev of
        SetImage ident width height anns \<Rightarrow>
          0 < width \<and> 0 < height \<and> valid_boxes (arr_items anns)
      | HostUpdate newItems \<Rightarrow> valid_boxes newItems
      | _ \<Rightarrow> True)"

section \<open>Example states\<close>

text \<open>
  A 100 by 100 image holding one box with pixel rectangle \<open>(40, 40, 20, 20)\<close>, zoom 1,
  no pan, snapping disabled, in \<open>SELECT\<close> mode, with empty history.
\<close>

definition example_box :: BBox where
  "example_box = \<lparr>bb_id = ''a'', bb_labelId = ''cat'',
                   bb_x = 1 / 2, bb_y = 1 / 2, bb_w = 1 / 5, bb_h = 1 / 5\<rparr>"

definition example_canvas :: canvas where
  "example_canvas =
     \<lparr>image_id = ''img'', image_width = 100, image_height = 100,
      annotations = \<lparr>arr_ref = 0, arr_items = [example_box]\<rparr>,
      currentLabelId = ''cat'', mode = SELECT, zoom = 1, pan = \<lparr>px = 0, py = 0\<rparr>,
      selectedAnnotationId = None, isDragging = False, dragStart = None,
      activeCreation = None, draggingAnnotationId = None, resizeHandle = None,
      activeSnapLines = (None, None), initialMoveRect = None,
      containerRect = Some \<lparr>px = 0, py = 0\<rparr>, next_ref = 1,
      snapPixelDistance = 0, undoStack = [], redoStack = [],
      prevAnnotationsRef = \<lparr>arr_ref = 0, arr_items = [example_box]\<rparr>,
      prevImageIdRef = ''img'', isHistoryAction = False,
      dragStartAnnotationsRef = \<lparr>arr_ref = 0, arr_items = [example_box]\<rparr>,
      isUndoRedo = False, effect_deps = (''img'', 0)\<rparr>"

text \<open>A mouse event at the given client position.\<close>

definition pointer :: "real \<Rightarrow> real \<Rightarrow> mouse" where
  "pointer cx cy = \<lparr>clientX = cx, clientY = cy\<rparr>"

text \<open>The same image with the \<open>DRAW\<close> tool selected.\<close>

definition example_draw :: canvas where
  "example_draw = example_canvas\<lparr>mode := DRAW\<rparr>"

text \<open>The same image in the MagicBox Canvas, at zoom 12, with a handler provided.\<close>

definition example_canvasM :: canvasM where
  "example_canvasM =
     \<lparr>image_id = ''img'', image_width = 100, image_height = 100,
      annotations = \<lparr>arr_ref = 0, arr_items = [example_box]\<rparr>,
      currentLabelId = ''cat'', mode = SELECT, zoom = 12, pan = \<lparr>px = 0, py = 0\<rparr>,
      selectedAnnotationId = None, isDragging = False, dragStart = None,
      activeCreation = None, draggingAnnotationId = None, resizeHandle = None,
      activeSnapLines = (None, None), initialMoveRect = None,
      containerRect = Some \<lparr>px = 0, py = 0\<rparr>, next_ref = 1,
      onMagicBoxSelect = True, magicBoxCalls = []\<rparr>"

text \<open>The example box being dragged, with a snap distance of 5 screen pixels.\<close>

definition example_drag :: canvas where
  "example_drag =
     step (AnnotationMouseDown (pointer 50 50) ''a'') (example_canvas\<lparr>snapPixelDistance := 5\<rparr>)"

text \<open>The same in the MagicBox Canvas (threshold 12 / 12 = 1 image pixel).\<close>

definition example_dragM :: canvasM where
  "example_dragM = stepM (AnnMouseDownM (pointer 600 600) ''a'') example_canvasM"

text \<open>The example box selected by a click, then grabbed by its bottom-right handle.\<close>

definition example_resize :: canvas where
  "example_resize =
     run [AnnotationMouseDown (pointer 50 50) ''a'', MouseUp ''u'',
          ResizeMouseDown (pointer 60 60) BR ''a''] example_canvas"

text \<open>The same in the MagicBox Canvas.\<close>

definition example_resizeM :: canvasM where
  "example_resizeM =
     runM [AnnMouseDownM (pointer 600 600) ''a'', MouseUpM ''u'',
           ResizeStartM (pointer 720 720) BR] example_canvasM"

section \<open>Properties of the snap engine\<close>

lemma snap_step_apply:
  "snap_step v a (c, b, m) = (if \<bar>v - a\<bar> < m then (a, True, \<bar>v - a\<bar>) else (c, b, m))"
  by (simp add: snap_step_def)

text \<open>Among candidates closer than \<open>m\<close> there is one of least distance.\<close>

lemma ex_nearest:
  assumes "\<exists>x \<in> set cs. \<bar>v - x\<bar> < (m::real)"
  shows "\<exists>x \<in> set cs. \<bar>v - x\<bar> < m \<and> (\<forall>c' \<in> set cs. \<bar>v - x\<bar> \<le> \<bar>v - c'\<bar>)"
proof -
  from assms obtain y where y: "y \<in> set cs" "\<bar>v - y\<bar> < m" by blast
  let ?D = "(\<lambda>c. \<bar>v - c\<bar>) ` set cs"
  have fin: "finite ?D" and ne: "?D \<noteq> {}" using y by auto
  from Min_in [OF fin ne] obtain x where x: "x \<in> set cs" "\<bar>v - x\<bar> = Min ?D" by auto
  have "\<forall>c' \<in> set cs. \<bar>v - x\<bar> \<le> \<bar>v - c'\<bar>"
    using x(2) Min_le [OF fin] by auto
  moreover from this y have "\<bar>v - x\<bar> < m" by force
  ultimately show ?thesis using x(1) by blast
qed

lemma find_nearer:
  assumes am: "\<bar>v - a\<bar> < (m::real)"
    and x: "x \<in> set cs" "\<bar>v - x\<bar> < \<bar>v - a\<bar>"
  shows "find (\<lambda>c. \<bar>v - c\<bar> < m \<and> (\<forall>c' \<in> set (a # cs). \<bar>v - c\<bar> \<le> \<bar>v - c'\<bar>)) cs
       = find (\<lambda>c. \<bar>v - c\<bar> < \<bar>v - a\<bar> \<and> (\<forall>c' \<in> set cs. \<bar>v - c\<bar> \<le> \<bar>v - c'\<bar>)) cs"
proof (rule find_cong [OF refl])
  fix c
  assume "c \<in> set cs"
  show "(\<bar>v - c\<bar> < m \<and> (\<forall>c' \<in> set (a # cs). \<bar>v - c\<bar> \<le> \<bar>v - c'\<bar>))
      = (\<bar>v - c\<bar> < \<bar>v - a\<bar> \<and> (\<forall>c' \<in> set cs. \<bar>v - c\<bar> \<le> \<bar>v - c'\<bar>))"
  proof
    assume l: "\<bar>v - c\<bar> < m \<and> (\<forall>c' \<in> set (a # cs). \<bar>v - c\<bar> \<le> \<bar>v - c'\<bar>)"
    then have "\<bar>v - c\<bar> \<le> \<bar>v - x\<bar>" using x(1) by simp
    with x(2) have "\<bar>v - c\<bar> < \<bar>v - a\<bar>" by simp
    with l show "\<bar>v - c\<bar> < \<bar>v - a\<bar> \<and> (\<forall>c' \<in> set cs. \<bar>v - c\<bar> \<le> \<bar>v - c'\<bar>)" by simp
  next
    assume "\<bar>v - c\<bar> < \<bar>v - a\<bar> \<and> (\<forall>c' \<in> set cs. \<bar>v - c\<bar> \<le> \<bar>v - c'\<bar>)"
    with am show "\<bar>v - c\<bar> < m \<and> (\<forall>c' \<in> set (a # cs). \<bar>v - c\<bar> \<le> \<bar>v - c'\<bar>)" by simp
  qed
qed

lemma first_nearest_Cons:
  "first_nearest v m (a # cs) =
     (if \<bar>v - a\<bar> < m
      then (case first_nearest v \<bar>v - a\<bar> cs of Some c \<Rightarrow> Some c | None \<Rightarrow> Some a)
      else first_nearest v m cs)"
proof (cases "\<bar>v - a\<bar> < m")
  case False
  have "find (\<lambda>c. \<bar>v - c\<bar> < m \<and> (\<forall>c' \<in> set (a # cs). \<bar>v - c\<bar> \<le> \<bar>v - c'\<bar>)) cs
      = find (\<lambda>c. \<bar>v - c\<bar> < m \<and> (\<forall>c' \<in> set cs. \<bar>v - c\<bar> \<le> \<bar>v - c'\<bar>)) cs"
    using False by (intro find_cong) auto
  with False show ?thesis by (simp add: first_nearest_def)
next
  case True
  show ?thesis
  proof (cases "\<exists>x \<in> set cs. \<bar>v - x\<bar> < \<bar>v - a\<bar>")
    case False
    then have n: "first_nearest v \<bar>v - a\<bar> cs = None"
      by (auto simp: first_nearest_def find_None_iff)
    from False have "\<forall>c' \<in> set (a # cs). \<bar>v - a\<bar> \<le> \<bar>v - c'\<bar>" by force
    with True n show ?thesis by (simp add: first_nearest_def)
  next
    case ex: True
    from ex_nearest [OF ex] obtain x where x: "x \<in> set cs" "\<bar>v - x\<bar> < \<bar>v - a\<bar>"
      "\<forall>c' \<in> set cs. \<bar>v - x\<bar> \<le> \<bar>v - c'\<bar>" by blast
    then have "first_nearest v \<bar>v - a\<bar> cs \<noteq> None"
      by (auto simp: first_nearest_def find_None_iff)
    then obtain c where c: "first_nearest v \<bar>v - a\<bar> cs = Some c" by blast
    have na: "\<not> (\<forall>c' \<in> set (a # cs). \<bar>v - a\<bar> \<le> \<bar>v - c'\<bar>)"
      using x(1,2) by (simp add: not_le) blast
    have "first_nearest v m (a # cs)
        = find (\<lambda>c. \<bar>v - c\<bar> < m \<and> (\<forall>c' \<in> set (a # cs). \<bar>v - c\<bar> \<le> \<bar>v - c'\<bar>)) cs"
      unfolding first_nearest_def using na by (simp only: find.simps simp_thms if_False)
    also have "\<dots> = first_nearest v \<bar>v - a\<bar> cs"
      unfolding first_nearest_def by (rule find_nearer [OF True x(1,2)])
    finally show ?thesis using True c by simp
  qed
qed

text \<open>The loop invariant of the scan, for any starting values of the loop variables.\<close>

lemma fold_snap_step:
  "fold (snap_step v) cs (c0, b0, m0) =
     (case first_nearest v m0 cs of
        Some c \<Rightarrow> (c, True, \<bar>v - c\<bar>)
      | None \<Rightarrow> (c0, b0, m0))"
proof (induction cs arbitrary: c0 b0 m0)
  case Nil
  show ?case by (simp add: first_nearest_def)
next
  case (Cons a cs)
  show ?case
    by (simp add: Cons.IH first_nearest_Cons snap_step_apply split: option.splits)
qed

lemma first_nearest_nonpos: "t \<le> 0 \<Longrightarrow> first_nearest v t cs = None"
  by (auto simp: first_nearest_def find_None_iff)

lemma getClosestSnapM_spec: "getClosestSnapM v cs t = closestSnap_spec v cs t"
  by (simp add: getClosestSnapM_def closestSnap_spec_def fold_snap_step first_nearest_nonpos)
     (simp add: first_nearest_def split: option.splits)

lemma getClosestSnap_spec:
  assumes "0 < t \<longrightarrow> 0 < SNAP"
  shows "getClosestSnap SNAP v cs t = closestSnap_spec v cs t"
proof (cases "SNAP \<le> 0")
  case True
  with assms have "t \<le> 0" by auto
  with True show ?thesis by (simp add: getClosestSnap_def closestSnap_spec_def)
next
  case False
  then have "getClosestSnap SNAP v cs t = getClosestSnapM v cs t"
    by (simp add: getClosestSnap_def getClosestSnapM_def)
  then show ?thesis by (simp add: getClosestSnapM_spec)
qed

text \<open>
  C5. For every value, candidate sequence and threshold, the snap function returns what the
  specification says: for a threshold \<open>t \<le> 0\<close> the value itself, unsnapped; for
  \<open>t > 0\<close> the first candidate in sequence order that attains the minimum distance, when
  that minimum is strictly below \<open>t\<close> (a candidate at distance exactly \<open>t\<close> does not
  qualify), and the value itself, unsnapped, otherwise. This holds for the MagicBox Canvas
  for all arguments, and for the history-enabled Canvas whenever the threshold is positive
  only if the configured distance is (every call passes \<open>SNAP_DIST_PX / zoom\<close>).
\<close>

theorem getClosestSnap_meets_spec:
  "getClosestSnapM v cs t = closestSnap_spec v cs t \<and>
   ((0 < t \<longrightarrow> 0 < SNAP) \<longrightarrow> getClosestSnap SNAP v cs t = closestSnap_spec v cs t)"
  using getClosestSnapM_spec getClosestSnap_spec by blast

theorem getClosestSnap_meets_spec_witness:
  "getClosestSnapM 5 [0, 10, 20] 6 = (0, True) \<and>
   getClosestSnap 12 5 [0, 10, 20] (12 / 2) = (0, True) \<and>
   getClosestSnap 12 5 [0, 10] (10 / 2) = (5, False) \<and>
   getClosestSnap 0 5 [0, 10, 20] (0 / 2) = (5, False)"
  using getClosestSnap_meets_spec [of 5 "[0, 10, 20]" 6 12]
        getClosestSnap_meets_spec [of 5 "[0, 10]" 5 12]
        getClosestSnap_meets_spec [of 5 "[0, 10, 20]" 0 0]
  by (simp add: closestSnap_spec_def)

section \<open>History: one entry per gesture\<close>

lemmas move_defs = handleMouseMove_def drawMove_def resizeMove_def dragMove_def
  updateWithNewArray_def onUpdateAnnotations_def Let_def split_def

lemma handleMouseMove_frame:
  "undoStack (handleMouseMove e s) = undoStack s"
  "redoStack (handleMouseMove e s) = redoStack s"
  "prevAnnotationsRef (handleMouseMove e s) = prevAnnotationsRef s"
  "prevImageIdRef (handleMouseMove e s) = prevImageIdRef s"
  "isHistoryAction (handleMouseMove e s) = isHistoryAction s"
  "dragStartAnnotationsRef (handleMouseMove e s) = dragStartAnnotationsRef s"
  "isUndoRedo (handleMouseMove e s) = isUndoRedo s"
  "effect_deps (handleMouseMove e s) = effect_deps s"
  "image_id (handleMouseMove e s) = image_id s"
  "image_width (handleMouseMove e s) = image_width s"
  "image_height (handleMouseMove e s) = image_height s"
  "mode (handleMouseMove e s) = mode s"
  "resizeHandle (handleMouseMove e s) = resizeHandle s"
  "draggingAnnotationId (handleMouseMove e s) = draggingAnnotationId s"
  "initialMoveRect (handleMouseMove e s) = initialMoveRect s"
  "isDragging (handleMouseMove e s) = isDragging s"
  "selectedAnnotationId (handleMouseMove e s) = selectedAnnotationId s"
  by (simp_all add: move_defs split: option.splits)

lemma handleMouseMove_annotations:
  "(annotations (handleMouseMove e s) = annotations s \<and> next_ref (handleMouseMove e s) = next_ref s)
   \<or> (mode s = SELECT \<and> (resizeHandle s \<noteq> None \<or> truthy (draggingAnnotationId s))
       \<and> arr_ref (annotations (handleMouseMove e s)) = next_ref s
       \<and> next_ref (handleMouseMove e s) = Suc (next_ref s))"
  by (simp add: move_defs split: option.splits)

lemma truthy_Some: "truthy v \<Longrightarrow> v \<noteq> None"
  by (cases v) (simp_all add: truthy_def)

lemma render_frame:
  "image_id (render s) = image_id s"
  "mode (render s) = mode s"
  "annotations (render s) = annotations s"
  "next_ref (render s) = next_ref s"
  "isHistoryAction (render s) = isHistoryAction s"
  "dragStartAnnotationsRef (render s) = dragStartAnnotationsRef s"
  "resizeHandle (render s) = resizeHandle s"
  "draggingAnnotationId (render s) = draggingAnnotationId s"
  "effect_deps (render s) = (image_id s, arr_ref (annotations s))"
  by (simp_all add: render_def historyEffect_def Let_def)

lemma render_rendered: "rendered s \<Longrightarrow> render s = s"
  by (simp add: rendered_def render_def)

text \<open>While the history action flag is up, the effect records nothing.\<close>

lemma render_suppressed:
  assumes "isHistoryAction s" "prevImageIdRef s = image_id s"
  shows "undoStack (render s) = undoStack s" "redoStack (render s) = redoStack s"
    "prevAnnotationsRef (render s) = prevAnnotationsRef s" "isUndoRedo (render s) = isUndoRedo s"
    "prevImageIdRef (render s) = prevImageIdRef s"
  using assms by (simp_all add: render_def historyEffect_def Let_def)

lemma in_gesture_move:
  assumes g: "in_gesture s0 s"
  shows "in_gesture s0 (step (MouseMove e) s)"
proof -
  let ?m = "handleMouseMove e s"
  from handleMouseMove_annotations [of e s] show ?thesis
  proof
    assume same: "annotations ?m = annotations s \<and> next_ref ?m = next_ref s"
    with g have "rendered ?m"
      by (simp add: in_gesture_def rendered_def handleMouseMove_frame)
    then have "render ?m = ?m" by (rule render_rendered)
    with g same show ?thesis
      by (auto simp add: step_def in_gesture_def rendered_def handleMouseMove_frame)
  next
    assume ch: "mode s = SELECT \<and> (resizeHandle s \<noteq> None \<or> truthy (draggingAnnotationId s))
       \<and> arr_ref (annotations ?m) = next_ref s \<and> next_ref ?m = Suc (next_ref s)"
    with g have h: "isHistoryAction s"
      by (auto simp: in_gesture_def dest: truthy_Some)
    with g have sup: "isHistoryAction ?m" "prevImageIdRef ?m = image_id ?m"
      by (simp_all add: in_gesture_def rendered_def handleMouseMove_frame)
    from g h ch show ?thesis
      by (auto simp add: step_def in_gesture_def rendered_def render_frame render_suppressed [OF sup]
            handleMouseMove_frame)
  qed
qed

lemma run_Nil: "run [] s = s"
  by (simp add: run_def)

lemma run_Cons: "run (ev # evs) s = run evs (step ev s)"
  by (simp add: run_def)

lemma run_append: "run (evs @ evs') s = run evs' (run evs s)"
  by (simp add: run_def)

lemma in_gesture_moves:
  "in_gesture s0 s \<Longrightarrow> in_gesture s0 (run (map MouseMove ms) s)"
  by (induction ms arbitrary: s) (simp_all add: run_Nil run_Cons in_gesture_move)

lemmas down_defs = handleMouseDown_def handleAnnotationMouseDown_def handleResizeMouseDown_def

lemma in_gesture_down:
  assumes "idle s" "pointer_down d"
  shows "in_gesture s (step d s)"
proof -
  have a: "annotations (dispatch d s) = annotations s" "image_id (dispatch d s) = image_id s"
    "effect_deps (dispatch d s) = effect_deps s" "prevImageIdRef (dispatch d s) = prevImageIdRef s"
    using assms(2) by (cases d; simp add: pointer_down_def down_defs Let_def split: option.splits)+
  with assms(1) have "rendered (dispatch d s)" by (simp add: idle_def rendered_def)
  then have r: "step d s = dispatch d s" by (simp add: step_def render_rendered)
  show ?thesis unfolding r using assms
    by (cases d; simp add: pointer_down_def; cases "mode s";
        simp add: in_gesture_def idle_def rendered_def released_def down_defs Let_def split: option.splits)
qed

lemma in_gesture_facts:
  assumes "in_gesture s0 s"
  shows "effect_deps s = (image_id s, arr_ref (annotations s))" "prevImageIdRef s = image_id s"
    "image_id s = image_id s0" "mode s = mode s0" "undoStack s = undoStack s0"
    "redoStack s = redoStack s0" "prevAnnotationsRef s = annotations s0" "\<not> isUndoRedo s"
    "arr_ref (annotations s0) < next_ref s0" "next_ref s0 \<le> next_ref s"
    "arr_ref (annotations s0) < next_ref s"
    "isHistoryAction s \<Longrightarrow> dragStartAnnotationsRef s = annotations s0"
    "\<not> isHistoryAction s \<Longrightarrow> annotations s = annotations s0"
    "\<not> isHistoryAction s \<Longrightarrow> mode s \<noteq> DRAW"
    "arr_ref (annotations s) = arr_ref (annotations s0) \<Longrightarrow> annotations s = annotations s0"
    "mode s \<noteq> SELECT \<Longrightarrow> annotations s = annotations s0"
    "arr_ref (annotations s) < next_ref s"
  using assms by (auto simp: in_gesture_def rendered_def)

lemma handleMouseUp_plain:
  assumes "\<not> finalizes s"
  shows "handleMouseUp u s =
     (if isHistoryAction s then
        (if arr_ref (annotations s) \<noteq> arr_ref (dragStartAnnotationsRef s)
         then s\<lparr>undoStack := undoStack s @ [dragStartAnnotationsRef s],
                redoStack := [],
                prevAnnotationsRef := annotations s\<rparr>
         else s)\<lparr>isHistoryAction := False\<rparr>
      else s)
     \<lparr>isDragging := False, dragStart := None, activeCreation := None,
      draggingAnnotationId := None, resizeHandle := None, initialMoveRect := None,
      activeSnapLines := (None, None)\<rparr>"
  using assms by (auto simp add: handleMouseUp_def finalizes_def Let_def)

lemma in_gesture_up_plain:
  assumes g: "in_gesture s0 s" and nf: "\<not> finalizes s"
  shows "idle (step (MouseUp u) s) \<and>
     annotations (step (MouseUp u) s) = annotations s \<and>
     (if arr_ref (annotations s) \<noteq> arr_ref (annotations s0)
      then undoStack (step (MouseUp u) s) = undoStack s0 @ [annotations s0] \<and>
           redoStack (step (MouseUp u) s) = []
      else undoStack (step (MouseUp u) s) = undoStack s0 \<and>
           redoStack (step (MouseUp u) s) = redoStack s0)"
proof -
  let ?m = "handleMouseUp u s"
  note G = in_gesture_facts [OF g]
  have "rendered ?m"
    by (simp add: handleMouseUp_plain [OF nf] rendered_def G(1,2))
  then have r: "step (MouseUp u) s = ?m" by (simp add: step_def render_rendered)
  show ?thesis
  proof (cases "isHistoryAction s")
    case True
    note d = G(12) [OF True]
    show ?thesis
    proof (cases "arr_ref (annotations s) = arr_ref (annotations s0)")
      case True
      note e = G(15) [OF True]
      from \<open>isHistoryAction s\<close> True show ?thesis unfolding r
        by (simp add: handleMouseUp_plain [OF nf] idle_def rendered_def released_def d e G(1-11,17))
    next
      case False
      with \<open>isHistoryAction s\<close> show ?thesis unfolding r
        by (simp add: handleMouseUp_plain [OF nf] idle_def rendered_def released_def d G(1-11,17))
    qed
  next
    case False
    note e = G(13) [OF False]
    from False show ?thesis unfolding r
      by (simp add: handleMouseUp_plain [OF nf] idle_def rendered_def released_def e G(1-11,17))
  qed
qed

lemma in_gesture_up_finalize:
  assumes g: "in_gesture s0 s" and f: "finalizes s"
  shows "idle (step (MouseUp u) s) \<and>
     arr_ref (annotations (step (MouseUp u) s)) \<noteq> arr_ref (annotations s0) \<and>
     arr_items (annotations (step (MouseUp u) s)) = arr_items (annotations (handleMouseUp u s)) \<and>
     undoStack (step (MouseUp u) s) = undoStack s0 @ [annotations (step (MouseUp u) s)] \<and>
     redoStack (step (MouseUp u) s) = []"
proof -
  note G = in_gesture_facts [OF g]
  from f have m: "mode s = DRAW" by (simp add: finalizes_def)
  with G(14) have h: "isHistoryAction s" by blast
  from m have e: "annotations s = annotations s0" by (simp add: G(16))
  note d = G(12) [OF h]
  from f h G(9-11) show ?thesis
    by (simp add: step_def render_def historyEffect_def handleMouseUp_def finalizes_def Let_def
          updateWithNewArray_def onUpdateAnnotations_def idle_def
          rendered_def released_def d e G(1-8))
qed

lemma in_gesture_up:
  assumes g: "in_gesture s0 s"
  shows "idle (step (MouseUp u) s) \<and>
     ((annotations (step (MouseUp u) s) = annotations s0 \<and>
       undoStack (step (MouseUp u) s) = undoStack s0 \<and>
       redoStack (step (MouseUp u) s) = redoStack s0)
      \<or> (arr_ref (annotations (step (MouseUp u) s)) \<noteq> arr_ref (annotations s0) \<and>
          undoStack (step (MouseUp u) s)
            = undoStack s0 @ [if mode s0 = DRAW then annotations (step (MouseUp u) s)
                              else annotations s0] \<and>
          redoStack (step (MouseUp u) s) = []))"
proof (cases "finalizes s")
  case True
  then have "mode s0 = DRAW" using in_gesture_facts(4) [OF g] by (simp add: finalizes_def)
  with in_gesture_up_finalize [OF g True, of u] show ?thesis by simp
next
  case False
  note G = in_gesture_facts [OF g]
  show ?thesis
  proof (cases "arr_ref (annotations s) = arr_ref (annotations s0)")
    case True
    with in_gesture_up_plain [OF g False, of u] G(15) show ?thesis by simp
  next
    case False
    then have "annotations s \<noteq> annotations s0" by auto
    with G(16) have "mode s = SELECT" by blast
    with G(4) have "mode s0 \<noteq> DRAW" by simp
    with in_gesture_up_plain [OF g \<open>\<not> finalizes s\<close>, of u] False show ?thesis by simp
  qed
qed

lemma moves_mono:
  "in_gesture s0 s \<Longrightarrow> arr_ref (annotations s) \<le> arr_ref (annotations (run (map MouseMove ms) s))"
proof (induction ms arbitrary: s)
  case Nil
  show ?case by (simp add: run_Nil)
next
  case (Cons e ms)
  note G = in_gesture_facts [OF Cons.prems]
  have "arr_ref (annotations s) \<le> arr_ref (annotations (step (MouseMove e) s))"
    using handleMouseMove_annotations [of e s] G(17)
    by (auto simp: step_def render_frame)
  also have "\<dots> \<le> arr_ref (annotations (run (map MouseMove ms) (step (MouseMove e) s)))"
    by (rule Cons.IH [OF in_gesture_move [OF Cons.prems]])
  finally show ?case by (simp add: run_Cons)
qed

lemma in_gesture_changed:
  "in_gesture s0 s \<Longrightarrow> annotations s \<noteq> annotations s0 \<Longrightarrow>
     arr_ref (annotations s0) < arr_ref (annotations s) \<and> mode s = SELECT"
  by (auto simp: in_gesture_def)

text \<open>
  Gestures are coalesced. A gesture is one pointer-down (on the canvas, a box or a handle)
  in an idle state, any number of pointer-moves and one pointer-up. At every intermediate
  point (\<open>mid\<close>, after any prefix of the moves) both stacks are still those of the
  start: moves never push. If the list at the end is the pre-gesture list, nothing was
  pushed. If the list changed (at an intermediate point, or at the end through a finalized
  draw), exactly one entry has been pushed and the redo stack is empty; for a move or a
  resize the entry is the pre-gesture list, for a draw it is the list after the draw. The
  component is idle again afterwards.
\<close>

lemma gesture_coalesced:
  assumes i: "idle s" and d: "pointer_down d"
  shows "let mid = run (d # map MouseMove ms1) s;
             s' = run (d # map MouseMove (ms1 @ ms2) @ [MouseUp u]) s
         in undoStack mid = undoStack s \<and> redoStack mid = redoStack s \<and>
            (arr_ref (annotations s') \<noteq> arr_ref (annotations s) \<or> annotations mid \<noteq> annotations s
               \<longrightarrow> undoStack s' = undoStack s @ [if mode s = DRAW then annotations s'
                                                   else annotations s] \<and>
                   redoStack s' = []) \<and>
            (annotations s' = annotations s
               \<longrightarrow> undoStack s' = undoStack s \<and> redoStack s' = redoStack s) \<and>
            idle s'"
proof -
  let ?mid = "run (map MouseMove ms1) (step d s)"
  let ?end = "run (map MouseMove ms2) ?mid"
  let ?s' = "step (MouseUp u) ?end"
  have g1: "in_gesture s ?mid" by (intro in_gesture_moves in_gesture_down i d)
  then have g2: "in_gesture s ?end" by (rule in_gesture_moves)
  note up = in_gesture_up [OF g2, of u]
  have ch: "arr_ref (annotations ?s') \<noteq> arr_ref (annotations s)" if "annotations ?mid \<noteq> annotations s"
  proof -
    from in_gesture_changed [OF g1 that] moves_mono [OF g1, of ms2]
    have c: "arr_ref (annotations s) < arr_ref (annotations ?end)" "mode ?mid = SELECT" by auto
    then have "mode ?end = SELECT" using in_gesture_facts(4) [OF g1] in_gesture_facts(4) [OF g2] by simp
    then have "\<not> finalizes ?end" by (simp add: finalizes_def)
    from in_gesture_up_plain [OF g2 this, of u] c(1) show ?thesis by simp
  qed
  have e: "run (d # map MouseMove ms1) s = ?mid"
    "run (d # map MouseMove (ms1 @ ms2) @ [MouseUp u]) s = ?s'"
    by (simp_all add: run_Cons run_append run_Nil)
  from up ch in_gesture_facts(5,6) [OF g1] show ?thesis
    unfolding e Let_def by auto
qed

lemmas eval_defs = run_def step_def render_def historyEffect_def handleMouseDown_def
  handleAnnotationMouseDown_def handleResizeMouseDown_def handleMouseMove_def handleMouseUp_def
  drawMove_def resizeMove_def dragMove_def updateWithNewArray_def onUpdateAnnotations_def
  replaceGeometry_def findAnnotation_def spread_def makeBBox_def yoloToSvg_def svgToYolo_def getMousePos_def
  getSnapLines_def getClosestSnap_def snapEdges_def resizeRect_def truthy_def performUndo_def
  performRedo_def example_canvas_def example_box_def pointer_def Let_def split_def

lemma idle_example: "idle example_canvas"
  by (simp add: idle_def rendered_def released_def example_canvas_def)

text \<open>
  C1 fails at a draw gesture. On the example image in \<open>DRAW\<close> mode, with empty
  history, a 6 by 6 rectangle is drawn. The gesture records exactly one undo entry, but the
  entry is the list after the draw (both boxes), not the pre-gesture list: the updater
  queued by the history effect reads \<open>prevAnnotationsRef.current\<close> after the effect
  has assigned the new list to it.
\<close>

theorem draw_gesture_records_post_draw_list:
  "undoStack example_draw = [] \<and>
   arr_items (annotations example_draw) = [example_box] \<and>
   arr_items (annotations (run [MouseDown (pointer 10 10), MouseMove (pointer 16 16), MouseUp ''u'']
                             example_draw))
     = [example_box, \<lparr>bb_id = ''u'', bb_labelId = ''cat'',
                       bb_x = 13 / 100, bb_y = 13 / 100, bb_w = 6 / 100, bb_h = 6 / 100\<rparr>] \<and>
   undoStack (run [MouseDown (pointer 10 10), MouseMove (pointer 16 16), MouseUp ''u''] example_draw)
     = [annotations (run [MouseDown (pointer 10 10), MouseMove (pointer 16 16), MouseUp ''u'']
                       example_draw)] \<and>
   undoStack (run [MouseDown (pointer 10 10), MouseMove (pointer 16 16), MouseUp ''u''] example_draw)
     \<noteq> [annotations example_draw]"
  by (simp add: example_draw_def eval_defs)

section \<open>History: what counts as a change\<close>

lemma dragging_move:
  assumes "dragging s"
  shows "arr_ref (annotations (handleMouseMove e s)) = next_ref s"
    and "dragging (handleMouseMove e s)"
  using assms by (simp_all add: dragging_def move_defs)

lemma dragging_step:
  assumes "dragging s"
  shows "arr_ref (annotations (step (MouseMove e) s)) = next_ref s"
    and "dragging (step (MouseMove e) s)"
proof -
  show "arr_ref (annotations (step (MouseMove e) s)) = next_ref s"
    by (simp add: step_def render_frame dragging_move [OF assms])
  have "dragging (render t) = dragging t" for t
    by (simp add: dragging_def render_def historyEffect_def Let_def)
  then show "dragging (step (MouseMove e) s)"
    by (simp add: step_def dragging_move [OF assms])
qed

lemma drag_moves_replace:
  assumes g: "in_gesture s0 s" and dr: "dragging s" and ne: "ms \<noteq> []"
  shows "arr_ref (annotations s0) < arr_ref (annotations (run (map MouseMove ms) s))"
proof -
  from ne obtain e es where ms: "ms = e # es" by (cases ms) auto
  note G = in_gesture_facts [OF g]
  let ?t = "step (MouseMove e) s"
  have "arr_ref (annotations s0) < arr_ref (annotations ?t)"
    using dragging_step(1) [OF dr, of e] G(9,10) by simp
  also have "\<dots> \<le> arr_ref (annotations (run (map MouseMove es) ?t))"
    by (rule moves_mono [OF in_gesture_move [OF g]])
  finally show ?thesis by (simp add: ms run_Cons)
qed

lemma drag_start:
  assumes i: "idle s" and m: "mode s = SELECT" and ne: "ident \<noteq> []"
    and f: "findAnnotation ident (arr_items (annotations s)) \<noteq> None"
  shows "dragging (step (AnnotationMouseDown e ident) s)"
proof -
  have "rendered (dispatch (AnnotationMouseDown e ident) s)"
    using i m f by (auto simp add: idle_def rendered_def handleAnnotationMouseDown_def)
  then have "step (AnnotationMouseDown e ident) s = handleAnnotationMouseDown e ident s"
    using m by (simp add: step_def render_rendered)
  with i m ne f show ?thesis
    by (auto simp add: idle_def released_def dragging_def handleAnnotationMouseDown_def truthy_def)
qed

lemma pointer_down_annotations:
  assumes "pointer_down d"
  shows "annotations (step d s) = annotations s"
  using assms
  by (cases d; simp add: step_def render_frame pointer_down_def down_defs Let_def split: option.splits)

text \<open>
  C3, as amended. For every select-mode gesture from an idle state, pointer-up pushes the
  pre-gesture list exactly when the list at the end is not the very array of the start
  (and if it is that array, it is unchanged). The test is on array identity, not on
  geometry: for a move gesture on an existing box the array has been replaced as soon as
  there was one pointer-move, so an entry is pushed if and only if the gesture had at least
  one move, whatever the final geometry.
\<close>

theorem drag_entry_iff_list_replaced:
  assumes i: "idle s" and d: "pointer_down d" and m: "mode s = SELECT"
  shows "(undoStack (run (d # map MouseMove ms @ [MouseUp u]) s) =
            (if arr_ref (annotations (run (d # map MouseMove ms @ [MouseUp u]) s))
                  = arr_ref (annotations s)
             then undoStack s else undoStack s @ [annotations s])) \<and>
         (arr_ref (annotations (run (d # map MouseMove ms @ [MouseUp u]) s)) = arr_ref (annotations s)
            \<longrightarrow> annotations (run (d # map MouseMove ms @ [MouseUp u]) s) = annotations s) \<and>
         (d = AnnotationMouseDown e ident \<and> ident \<noteq> [] \<and>
          findAnnotation ident (arr_items (annotations s)) \<noteq> None
            \<longrightarrow> (arr_ref (annotations (run (d # map MouseMove ms @ [MouseUp u]) s))
                   = arr_ref (annotations s)) = (ms = []))"
proof -
  let ?b = "run (map MouseMove ms) (step d s)"
  let ?s' = "step (MouseUp u) ?b"
  have e: "run (d # map MouseMove ms @ [MouseUp u]) s = ?s'"
    by (simp add: run_Cons run_append run_Nil)
  have g0: "in_gesture s (step d s)" by (rule in_gesture_down [OF i d])
  then have g: "in_gesture s ?b" by (rule in_gesture_moves)
  note G = in_gesture_facts [OF g]
  from G(4) m have nf: "\<not> finalizes ?b" by (simp add: finalizes_def)
  note up = in_gesture_up_plain [OF g nf, of u]
  from up have a: "annotations ?s' = annotations ?b" by simp
  have 1: "undoStack ?s' = (if arr_ref (annotations ?s') = arr_ref (annotations s)
             then undoStack s else undoStack s @ [annotations s])"
    using up by (simp add: a split: if_splits)
  have 2: "arr_ref (annotations ?s') = arr_ref (annotations s) \<longrightarrow> annotations ?s' = annotations s"
    using G(15) by (simp add: a)
  have 3: "(arr_ref (annotations ?s') = arr_ref (annotations s)) = (ms = [])"
    if "d = AnnotationMouseDown e ident" "ident \<noteq> []"
       "findAnnotation ident (arr_items (annotations s)) \<noteq> None"
  proof (cases "ms = []")
    case True
    have "arr_ref (annotations (step d s)) = arr_ref (annotations s)"
      by (simp add: pointer_down_annotations [OF d])
    with True a show ?thesis by (simp add: run_Nil)
  next
    case False
    have "dragging (step d s)" unfolding that(1) by (rule drag_start [OF i m that(2,3)])
    from drag_moves_replace [OF g0 this False] False a show ?thesis by simp
  qed
  from 1 2 3 show ?thesis unfolding e by blast
qed

text \<open>
  C3 as stated fails: dragging the box 10 pixels right and back again ends in a list with
  the same boxes as before, yet one entry has been pushed.
\<close>

theorem zero_net_drag_pushes_entry:
  "mode example_canvas = SELECT \<and>
   arr_items (annotations (run [AnnotationMouseDown (pointer 50 50) ''a'', MouseMove (pointer 60 50),
                                MouseMove (pointer 50 50), MouseUp ''u''] example_canvas))
     = arr_items (annotations example_canvas) \<and>
   undoStack example_canvas = [] \<and>
   undoStack (run [AnnotationMouseDown (pointer 50 50) ''a'', MouseMove (pointer 60 50),
                   MouseMove (pointer 50 50), MouseUp ''u''] example_canvas)
     = [annotations example_canvas]"
  by (simp add: eval_defs)

theorem drag_entry_iff_list_replaced_witness:
  "idle example_canvas \<and> pointer_down (AnnotationMouseDown (pointer 50 50) ''a'') \<and>
   mode example_canvas = SELECT \<and>
   undoStack (run [AnnotationMouseDown (pointer 50 50) ''a'', MouseUp ''u''] example_canvas) = [] \<and>
   undoStack (run [AnnotationMouseDown (pointer 50 50) ''a'', MouseMove (pointer 50 50),
                   MouseUp ''u''] example_canvas) = [annotations example_canvas]"
proof -
  have d: "pointer_down (AnnotationMouseDown (pointer 50 50) ''a'')"
    by (simp add: pointer_down_def)
  have m: "mode example_canvas = SELECT" by (simp add: example_canvas_def)
  have f: "findAnnotation ''a'' (arr_items (annotations example_canvas)) \<noteq> None"
    by (simp add: example_canvas_def example_box_def findAnnotation_def)
  have u: "undoStack example_canvas = []" by (simp add: example_canvas_def)
  from drag_entry_iff_list_replaced [OF idle_example d m, of "[]" "''u''" "pointer 50 50" "''a''"]
       drag_entry_iff_list_replaced [OF idle_example d m, of "[pointer 50 50]" "''u''" "pointer 50 50" "''a''"]
       f u
  show ?thesis using idle_example d m by simp
qed

section \<open>Undo and redo\<close>

lemma undo_step:
  assumes r: "rendered s" and ne: "undoStack s \<noteq> []"
  shows "annotations (step Undo s) = last (undoStack s)"
    "undoStack (step Undo s) = butlast (undoStack s)"
    "redoStack (step Undo s) = redoStack s @ [annotations s]"
    "rendered (step Undo s)"
  using assms
  by (simp_all add: step_def render_def historyEffect_def performUndo_def rendered_def
        onUpdateAnnotations_def Let_def)

lemma redo_step:
  assumes r: "rendered s" and ne: "redoStack s \<noteq> []"
  shows "annotations (step Redo s) = last (redoStack s)"
    "redoStack (step Redo s) = butlast (redoStack s)"
    "undoStack (step Redo s) = undoStack s @ [annotations s]"
    "rendered (step Redo s)"
  using assms
  by (simp_all add: step_def render_def historyEffect_def performRedo_def rendered_def
        onUpdateAnnotations_def Let_def)



text \<open>
  After a move or a resize gesture that changed the list, undo restores the pre-gesture
  list and a following redo the list the gesture left.
\<close>

lemma undo_redo_after_select_gesture:
  assumes i: "idle s" and d: "pointer_down d" and m: "mode s = SELECT"
    and c: "arr_ref (annotations (run (d # map MouseMove ms @ [MouseUp u]) s))
              \<noteq> arr_ref (annotations s)"
  shows "annotations (step Undo (run (d # map MouseMove ms @ [MouseUp u]) s)) = annotations s"
    and "annotations (step Redo (step Undo (run (d # map MouseMove ms @ [MouseUp u]) s)))
           = annotations (run (d # map MouseMove ms @ [MouseUp u]) s)"
proof -
  let ?s' = "run (d # map MouseMove ms @ [MouseUp u]) s"
  from gesture_coalesced [OF i d, of ms "[]" u] c m
  have u: "undoStack ?s' = undoStack s @ [annotations s]" and "idle ?s'"
    by (simp_all add: Let_def)
  then have r: "rendered ?s'" by (simp add: idle_def)
  from u have ne: "undoStack ?s' \<noteq> []" by simp
  note U = undo_step [OF r ne]
  from U(1) u show "annotations (step Undo ?s') = annotations s" by simp
  from U(3) have ne': "redoStack (step Undo ?s') \<noteq> []" by simp
  from redo_step(1) [OF U(4) ne'] U(3)
  show "annotations (step Redo (step Undo ?s')) = annotations ?s'" by simp
qed

text \<open>
  C4 fails after a committed draw. The mechanics of undo and redo are as claimed (lemmas
  \<open>undo_step\<close>, \<open>redo_step\<close>, \<open>undo_empty\<close>, \<open>redo_empty\<close>), but the
  entry a finalized draw leaves on the undo stack is the list after the draw, so the undo
  that follows makes that same list current again: the drawn box stays, and the pre-draw
  list is not restored. A redo then changes nothing either.
\<close>

theorem undo_after_draw_keeps_drawn_box:
  "arr_items (annotations example_draw) = [example_box] \<and>
   arr_items (annotations (run [MouseDown (pointer 10 10), MouseMove (pointer 16 16), MouseUp ''u'']
                             example_draw))
     = [example_box, \<lparr>bb_id = ''u'', bb_labelId = ''cat'',
                       bb_x = 13 / 100, bb_y = 13 / 100, bb_w = 6 / 100, bb_h = 6 / 100\<rparr>] \<and>
   annotations (run [MouseDown (pointer 10 10), MouseMove (pointer 16 16), MouseUp ''u'', Undo]
                  example_draw)
     = annotations (run [MouseDown (pointer 10 10), MouseMove (pointer 16 16), MouseUp ''u'']
                      example_draw) \<and>
   undoStack (run [MouseDown (pointer 10 10), MouseMove (pointer 16 16), MouseUp ''u'', Undo]
                example_draw) = [] \<and>
   annotations (run [MouseDown (pointer 10 10), MouseMove (pointer 16 16), MouseUp ''u'', Undo, Redo]
                  example_draw)
     = annotations (run [MouseDown (pointer 10 10), MouseMove (pointer 16 16), MouseUp ''u'']
                      example_draw)"
  by (simp add: example_draw_def eval_defs)

section \<open>Switching the image\<close>




section \<open>Finalizing a draw\<close>

lemma create_start:
  assumes "idle s" "mode s = DRAW"
  shows "creating s (step (MouseDown e) s)"
  using assms
  by (simp add: step_def render_def historyEffect_def handleMouseDown_def creating_def idle_def
        rendered_def Let_def)

lemma creating_move:
  assumes "creating s0 s"
  shows "creating s0 (step (MouseMove e) s)"
proof -
  have "creating s0 (render t) = creating s0 t" for t
    by (simp add: creating_def render_def historyEffect_def Let_def)
  moreover have "creating s0 (handleMouseMove e s)"
    using assms by (simp add: creating_def handleMouseMove_def drawMove_def Let_def split_def)
  ultimately show ?thesis by (simp add: step_def)
qed

lemma creating_moves:
  "creating s0 s \<Longrightarrow> creating s0 (run (map MouseMove ms) s)"
  by (induction ms arbitrary: s) (simp_all add: run_Nil run_Cons creating_move)

text \<open>Converting a pixel rectangle to normalised form and back gives the rectangle.\<close>

lemma yolo_roundtrip:
  assumes "0 < width" "0 < height"
  shows "yoloToSvg (makeBBox ident label (svgToYolo x y w h width height)) width height
           = \<lparr>rx = x, ry = y, rw = w, rh = h\<rparr>"
    and "yoloToSvg (spread a (svgToYolo x y w h width height)) width height
           = \<lparr>rx = x, ry = y, rw = w, rh = h\<rparr>"
  using assms by (simp_all add: yoloToSvg_def makeBBox_def spread_def svgToYolo_def)

lemma handleMouseUp_finalize:
  assumes "finalizes s"
  shows "arr_items (annotations (handleMouseUp u s)) =
           arr_items (annotations s) @
             [makeBBox u (currentLabelId s)
                (svgToYolo (rx (the (activeCreation s))) (ry (the (activeCreation s)))
                   (rw (the (activeCreation s))) (rh (the (activeCreation s)))
                   (image_width s) (image_height s))]"
    and "selectedAnnotationId (handleMouseUp u s) = Some u"
  using assms
  by (simp_all add: handleMouseUp_def finalizes_def Let_def updateWithNewArray_def
        onUpdateAnnotations_def)

lemma step_up_selected:
  "selectedAnnotationId (step (MouseUp u) s) = selectedAnnotationId (handleMouseUp u s)"
  by (simp add: step_def render_def historyEffect_def Let_def)

text \<open>
  C7. A draw gesture from an idle state in \<open>DRAW\<close> mode: at pointer-up there is a
  rectangle \<open>ac\<close> being drawn. If both its dimensions strictly exceed 5 pixels, the
  list after the pointer-up is the old one followed by exactly one new box, carrying the
  given id, the currently selected label and \<open>ac\<close> in normalised coordinates, and
  that box is selected. Otherwise (4 by 4, and also 5 by 5) the list and both stacks are
  as before the gesture: no annotation and no history entry.
\<close>

theorem draw_finalizes_above_five:
  assumes i: "idle s0" and m: "mode s0 = DRAW"
  shows "\<exists>ac. activeCreation (run (MouseDown e # map MouseMove ms) s0) = Some ac \<and>
           (if 5 < rw ac \<and> 5 < rh ac then
              arr_items (annotations (run (MouseDown e # map MouseMove ms @ [MouseUp u]) s0))
                = arr_items (annotations s0) @
                    [makeBBox u (currentLabelId s0)
                       (svgToYolo (rx ac) (ry ac) (rw ac) (rh ac) (image_width s0) (image_height s0))] \<and>
              selectedAnnotationId (run (MouseDown e # map MouseMove ms @ [MouseUp u]) s0) = Some u
            else
              annotations (run (MouseDown e # map MouseMove ms @ [MouseUp u]) s0) = annotations s0 \<and>
              undoStack (run (MouseDown e # map MouseMove ms @ [MouseUp u]) s0) = undoStack s0 \<and>
              redoStack (run (MouseDown e # map MouseMove ms @ [MouseUp u]) s0) = redoStack s0)"
proof -
  let ?b = "run (map MouseMove ms) (step (MouseDown e) s0)"
  let ?s' = "step (MouseUp u) ?b"
  have e: "run (MouseDown e # map MouseMove ms) s0 = ?b"
    "run (MouseDown e # map MouseMove ms @ [MouseUp u]) s0 = ?s'"
    by (simp_all add: run_Cons run_append run_Nil)
  have d: "pointer_down (MouseDown e)" by (simp add: pointer_down_def)
  have g: "in_gesture s0 ?b" by (intro in_gesture_moves in_gesture_down i d)
  have c: "creating s0 ?b" by (intro creating_moves create_start i m)
  note G = in_gesture_facts [OF g]
  from c have md: "mode ?b = DRAW" by (simp add: creating_def)
  then have same: "annotations ?b = annotations s0" by (simp add: G(16))
  from c obtain ac where ac: "activeCreation ?b = Some ac" by (auto simp: creating_def)
  show ?thesis
  proof (cases "5 < rw ac \<and> 5 < rh ac")
    case True
    with md ac have f: "finalizes ?b" by (simp add: finalizes_def)
    note F = in_gesture_up_finalize [OF g f, of u]
    note H = handleMouseUp_finalize [OF f, of u]
    have sel: "selectedAnnotationId ?s' = Some u"
      by (simp only: step_up_selected H(2))
    from c have k: "currentLabelId ?b = currentLabelId s0" "image_width ?b = image_width s0"
      "image_height ?b = image_height s0" by (simp_all add: creating_def)
    from F H(1) sel True show ?thesis unfolding e by (simp add: ac same k)
  next
    case False
    with ac have nf: "\<not> finalizes ?b" by (auto simp add: finalizes_def)
    from in_gesture_up_plain [OF g nf, of u] False show ?thesis
      unfolding e by (simp add: ac same G(5,6))
  qed
qed

theorem draw_finalizes_above_five_witness:
  "idle example_draw \<and> mode example_draw = DRAW \<and>
   activeCreation (run [MouseDown (pointer 10 10), MouseMove (pointer 14 14)] example_draw)
     = Some \<lparr>rx = 10, ry = 10, rw = 4, rh = 4\<rparr> \<and>
   annotations (run [MouseDown (pointer 10 10), MouseMove (pointer 14 14), MouseUp ''u''] example_draw)
     = annotations example_draw \<and>
   undoStack (run [MouseDown (pointer 10 10), MouseMove (pointer 14 14), MouseUp ''u''] example_draw) = [] \<and>
   activeCreation (run [MouseDown (pointer 10 10), MouseMove (pointer 15 15)] example_draw)
     = Some \<lparr>rx = 10, ry = 10, rw = 5, rh = 5\<rparr> \<and>
   annotations (run [MouseDown (pointer 10 10), MouseMove (pointer 15 15), MouseUp ''u''] example_draw)
     = annotations example_draw \<and>
   activeCreation (run [MouseDown (pointer 10 10), MouseMove (pointer 16 16)] example_draw)
     = Some \<lparr>rx = 10, ry = 10, rw = 6, rh = 6\<rparr> \<and>
   arr_items (annotations (run [MouseDown (pointer 10 10), MouseMove (pointer 16 16), MouseUp ''u'']
                             example_draw))
     = [example_box, \<lparr>bb_id = ''u'', bb_labelId = ''cat'',
                       bb_x = 13 / 100, bb_y = 13 / 100, bb_w = 6 / 100, bb_h = 6 / 100\<rparr>] \<and>
   selectedAnnotationId (run [MouseDown (pointer 10 10), MouseMove (pointer 16 16), MouseUp ''u'']
                             example_draw) = Some ''u''"
proof -
  have i: "idle example_draw"
    by (simp add: idle_def rendered_def released_def example_draw_def example_canvas_def)
  have m: "mode example_draw = DRAW" by (simp add: example_draw_def)
  have a4: "activeCreation (run [MouseDown (pointer 10 10), MouseMove (pointer 14 14)] example_draw)
     = Some \<lparr>rx = 10, ry = 10, rw = 4, rh = 4\<rparr>" by (simp add: example_draw_def eval_defs)
  have a5: "activeCreation (run [MouseDown (pointer 10 10), MouseMove (pointer 15 15)] example_draw)
     = Some \<lparr>rx = 10, ry = 10, rw = 5, rh = 5\<rparr>" by (simp add: example_draw_def eval_defs)
  have a6: "activeCreation (run [MouseDown (pointer 10 10), MouseMove (pointer 16 16)] example_draw)
     = Some \<lparr>rx = 10, ry = 10, rw = 6, rh = 6\<rparr>" by (simp add: example_draw_def eval_defs)
  have k: "undoStack example_draw = []" "redoStack example_draw = []"
    "arr_items (annotations example_draw) = [example_box]" "currentLabelId example_draw = ''cat''"
    "image_width example_draw = 100" "image_height example_draw = 100"
    by (simp_all add: example_draw_def example_canvas_def)
  from draw_finalizes_above_five [OF i m, of "pointer 10 10" "[pointer 14 14]" "''u''"]
       draw_finalizes_above_five [OF i m, of "pointer 10 10" "[pointer 15 15]" "''u''"]
       draw_finalizes_above_five [OF i m, of "pointer 10 10" "[pointer 16 16]" "''u''"]
  show ?thesis using i m
    by (simp add: a4 a5 a6 k makeBBox_def svgToYolo_def)
qed

section \<open>MagicBox gestures\<close>

lemmas evalM_defs = runM_def handleMouseDownM_def handleAnnMouseDownM_def handleResizeStartM_def
  handleMouseMoveM_def handleMouseUpM_def drawMoveM_def resizeMoveM_def dragMoveM_def
  resizeRectM_def SNAP_DIST_PX_M_def getClosestSnapM_def snap_step_def updateWithNewArray_def
  onUpdateAnnotations_def replaceGeometry_def findAnnotation_def spread_def makeBBox_def
  yoloToSvg_def svgToYolo_def getMousePos_def getSnapLines_def snapEdges_def truthy_def
  example_canvasM_def example_box_def pointer_def Let_def split_def

lemma handleMouseUp_magic:
  "mode t = MAGIC_BOX \<Longrightarrow> annotations (step (MouseUp u) t) = annotations t"
  by (simp add: step_def render_frame handleMouseUp_def Let_def)

text \<open>
  C9. In the MagicBox Canvas, a pointer-up in \<open>MAGIC_BOX\<close> mode with a drawn
  rectangle above 5 pixels in both dimensions leaves the annotation list as it is and calls
  the external handler, when one is provided, with exactly that rectangle. In the
  history-enabled Canvas, which has no such handler, a pointer-up in \<open>MAGIC_BOX\<close>
  mode never changes the list either.
\<close>

theorem magic_box_leaves_list:
  "(mode s = MAGIC_BOX \<and> activeCreation s = Some ac \<and> 5 < rw ac \<and> 5 < rh ac \<longrightarrow>
      annotations (handleMouseUpM u s) = annotations s \<and>
      magicBoxCalls (handleMouseUpM u s)
        = (if onMagicBoxSelect s then magicBoxCalls s @ [ac] else magicBoxCalls s)) \<and>
   (mode t = MAGIC_BOX \<longrightarrow> annotations (step (MouseUp u) t) = annotations t)"
proof (intro conjI impI)
  assume a: "mode s = MAGIC_BOX \<and> activeCreation s = Some ac \<and> 5 < rw ac \<and> 5 < rh ac"
  then show "annotations (handleMouseUpM u s) = annotations s"
    by (simp add: handleMouseUpM_def Let_def)
  from a show "magicBoxCalls (handleMouseUpM u s)
        = (if onMagicBoxSelect s then magicBoxCalls s @ [ac] else magicBoxCalls s)"
    by (simp add: handleMouseUpM_def Let_def)
next
  assume "mode t = MAGIC_BOX"
  then show "annotations (step (MouseUp u) t) = annotations t"
    by (rule handleMouseUp_magic)
qed


theorem magic_box_leaves_list_witness:
  "mode (runM [MouseDownM (pointer 120 120), MouseMoveM (pointer 360 240)]
           (example_canvasM\<lparr>mode := MAGIC_BOX\<rparr>)) = MAGIC_BOX \<and>
   activeCreation (runM [MouseDownM (pointer 120 120), MouseMoveM (pointer 360 240)]
           (example_canvasM\<lparr>mode := MAGIC_BOX\<rparr>)) = Some \<lparr>rx = 10, ry = 10, rw = 20, rh = 10\<rparr> \<and>
   annotations (runM [MouseDownM (pointer 120 120), MouseMoveM (pointer 360 240), MouseUpM ''u'']
           (example_canvasM\<lparr>mode := MAGIC_BOX\<rparr>)) = annotations example_canvasM \<and>
   magicBoxCalls (runM [MouseDownM (pointer 120 120), MouseMoveM (pointer 360 240), MouseUpM ''u'']
           (example_canvasM\<lparr>mode := MAGIC_BOX\<rparr>)) = [\<lparr>rx = 10, ry = 10, rw = 20, rh = 10\<rparr>] \<and>
   annotations (run [MouseDown (pointer 10 10), MouseMove (pointer 30 30), MouseUp ''u'']
           (example_canvas\<lparr>mode := MAGIC_BOX\<rparr>)) = annotations example_canvas"
proof -
  let ?b = "runM [MouseDownM (pointer 120 120), MouseMoveM (pointer 360 240)]
           (example_canvasM\<lparr>mode := MAGIC_BOX\<rparr>)"
  let ?t = "run [MouseDown (pointer 10 10), MouseMove (pointer 30 30)]
           (example_canvas\<lparr>mode := MAGIC_BOX\<rparr>)"
  have m: "mode ?b = MAGIC_BOX" by code_simp
  have a: "activeCreation ?b = Some \<lparr>rx = 10, ry = 10, rw = 20, rh = 10\<rparr>"
    by code_simp
  have k: "annotations ?b = annotations example_canvasM" "onMagicBoxSelect ?b" "magicBoxCalls ?b = []"
    by code_simp+
  have e: "runM [MouseDownM (pointer 120 120), MouseMoveM (pointer 360 240), MouseUpM ''u'']
           (example_canvasM\<lparr>mode := MAGIC_BOX\<rparr>) = handleMouseUpM ''u'' ?b"
    by (simp add: runM_def)
  have mt: "mode ?t = MAGIC_BOX" "annotations ?t = annotations example_canvas"
    by code_simp+
  have et: "run [MouseDown (pointer 10 10), MouseMove (pointer 30 30), MouseUp ''u'']
           (example_canvas\<lparr>mode := MAGIC_BOX\<rparr>) = step (MouseUp ''u'') ?t"
    by (simp add: run_def)
  from magic_box_leaves_list [of ?b "\<lparr>rx = 10, ry = 10, rw = 20, rh = 10\<rparr>" "''u''" ?t]
  show ?thesis unfolding e et using m a k mt by simp
qed

section \<open>Moving a box\<close>

lemma snapEdges_placed: "edge_placed l r raw ext (fst (snapEdges l r ext raw))"
  by (simp add: snapEdges_def edge_placed_def)

lemma spread_fields: "bb_id (spread a g) = bb_id a" "bb_labelId (spread a g) = bb_labelId a"
  by (simp_all add: spread_def)

lemma move_outcome_replace:
  assumes "0 < width" "0 < height"
  shows "move_outcome width height ident r0 rawX rawY t anns
           (replaceGeometry ident
              (svgToYolo
                 (fst (snapEdges (closestSnap_spec rawX (fst (getSnapLines width height anns (Some ident))) t)
                         (closestSnap_spec (rawX + rw r0) (fst (getSnapLines width height anns (Some ident))) t)
                         (rw r0) rawX))
                 (fst (snapEdges (closestSnap_spec rawY (snd (getSnapLines width height anns (Some ident))) t)
                         (closestSnap_spec (rawY + rh r0) (snd (getSnapLines width height anns (Some ident))) t)
                         (rh r0) rawY))
                 (rw r0) (rh r0) width height) anns)"
  unfolding move_outcome_def Let_def replaceGeometry_def
  by (simp add: yolo_roundtrip(2) [OF assms] spread_fields snapEdges_placed)

lemma snap_threshold: "0 < zm \<Longrightarrow> 0 < d / zm \<longrightarrow> 0 < (d::real)"
  by (simp add: zero_less_divide_iff)

lemma dragMove_items:
  assumes d: "dragging s" and z: "0 < zoom s"
  shows "arr_items (annotations (handleMouseMove e s)) =
     (let ident = the (draggingAnnotationId s); r0 = the (initialMoveRect s);
          ds = the (dragStart s);
          p = getMousePos (containerRect s) (pan s) (zoom s) e;
          t = snapPixelDistance s / zoom s;
          lines = getSnapLines (image_width s) (image_height s) (arr_items (annotations s)) (Some ident);
          rawX = rx r0 + (px p - px ds);
          rawY = ry r0 + (py p - py ds)
      in replaceGeometry ident
           (svgToYolo
              (fst (snapEdges (closestSnap_spec rawX (fst lines) t)
                      (closestSnap_spec (rawX + rw r0) (fst lines) t) (rw r0) rawX))
              (fst (snapEdges (closestSnap_spec rawY (snd lines) t)
                      (closestSnap_spec (rawY + rh r0) (snd lines) t) (rh r0) rawY))
              (rw r0) (rh r0) (image_width s) (image_height s))
           (arr_items (annotations s)))"
proof -
  from d obtain ident where i: "draggingAnnotationId s = Some ident"
    by (auto simp: dragging_def dest: truthy_Some)
  note sp = getClosestSnap_spec [OF snap_threshold [OF z]]
  from d i show ?thesis
    by (simp add: dragging_def move_defs sp)
qed

lemma dragMoveM_items:
  assumes d: "draggingM s"
  shows "arr_items (annotations (handleMouseMoveM e s)) =
     (let ident = the (draggingAnnotationId s); r0 = the (initialMoveRect s);
          ds = the (dragStart s);
          p = getMousePos (containerRect s) (pan s) (zoom s) e;
          t = SNAP_DIST_PX_M / zoom s;
          lines = getSnapLines (image_width s) (image_height s) (arr_items (annotations s)) (Some ident);
          rawX = rx r0 + (px p - px ds);
          rawY = ry r0 + (py p - py ds)
      in replaceGeometry ident
           (svgToYolo
              (fst (snapEdges (closestSnap_spec rawX (fst lines) t)
                      (closestSnap_spec (rawX + rw r0) (fst lines) t) (rw r0) rawX))
              (fst (snapEdges (closestSnap_spec rawY (snd lines) t)
                      (closestSnap_spec (rawY + rh r0) (snd lines) t) (rh r0) rawY))
              (rw r0) (rh r0) (image_width s) (image_height s))
           (arr_items (annotations s)))"
proof -
  from d obtain ident where i: "draggingAnnotationId s = Some ident"
    by (auto simp: draggingM_def dest: truthy_Some)
  from d i show ?thesis
    by (simp add: draggingM_def handleMouseMoveM_def dragMoveM_def updateWithNewArray_def
          onUpdateAnnotations_def Let_def split_def getClosestSnapM_spec)
qed

text \<open>
  C6. In both revisions of the Canvas, a move event of a move gesture (positive image
  size and zoom) replaces the list by one in which, independently per axis, the dragged box
  sits with its leading edge (left, top) on the snap candidate if the leading edge snapped,
  else with its trailing edge (right, bottom) on the candidate if that edge snapped, else at
  the raw position given by the pointer delta; its pixel width and height are those of the
  start of the gesture, and every other box is unchanged. Snapping is the specification's
  \<open>closestSnap_spec\<close> with the threshold \<open>SNAP_DIST_PX / zoom\<close>.
\<close>

theorem move_snaps_leading_then_trailing:
  "(dragging s \<and> 0 < image_width s \<and> 0 < image_height s \<and> 0 < zoom s \<longrightarrow>
      move_outcome (image_width s) (image_height s)
        (the (draggingAnnotationId s)) (the (initialMoveRect s))
        (rx (the (initialMoveRect s))
           + (px (getMousePos (containerRect s) (pan s) (zoom s) e) - px (the (dragStart s))))
        (ry (the (initialMoveRect s))
           + (py (getMousePos (containerRect s) (pan s) (zoom s) e) - py (the (dragStart s))))
        (snapPixelDistance s / zoom s)
        (arr_items (annotations s)) (arr_items (annotations (handleMouseMove e s)))) \<and>
   (draggingM sM \<and> 0 < image_width sM \<and> 0 < image_height sM \<and> 0 < zoom sM \<longrightarrow>
      move_outcome (image_width sM) (image_height sM)
        (the (draggingAnnotationId sM)) (the (initialMoveRect sM))
        (rx (the (initialMoveRect sM))
           + (px (getMousePos (containerRect sM) (pan sM) (zoom sM) eM) - px (the (dragStart sM))))
        (ry (the (initialMoveRect sM))
           + (py (getMousePos (containerRect sM) (pan sM) (zoom sM) eM) - py (the (dragStart sM))))
        (SNAP_DIST_PX_M / zoom sM)
        (arr_items (annotations sM)) (arr_items (annotations (handleMouseMoveM eM sM))))"
proof (intro conjI impI)
  assume a: "dragging s \<and> 0 < image_width s \<and> 0 < image_height s \<and> 0 < zoom s"
  then have d: "dragging s" and z: "0 < zoom s" and w: "0 < image_width s" "0 < image_height s"
    by simp_all
  show "move_outcome (image_width s) (image_height s)
        (the (draggingAnnotationId s)) (the (initialMoveRect s))
        (rx (the (initialMoveRect s))
           + (px (getMousePos (containerRect s) (pan s) (zoom s) e) - px (the (dragStart s))))
        (ry (the (initialMoveRect s))
           + (py (getMousePos (containerRect s) (pan s) (zoom s) e) - py (the (dragStart s))))
        (snapPixelDistance s / zoom s)
        (arr_items (annotations s)) (arr_items (annotations (handleMouseMove e s)))"
    unfolding dragMove_items [OF d z] Let_def by (rule move_outcome_replace [OF w])
next
  assume a: "draggingM sM \<and> 0 < image_width sM \<and> 0 < image_height sM \<and> 0 < zoom sM"
  then have d: "draggingM sM" and w: "0 < image_width sM" "0 < image_height sM"
    by simp_all
  show "move_outcome (image_width sM) (image_height sM)
        (the (draggingAnnotationId sM)) (the (initialMoveRect sM))
        (rx (the (initialMoveRect sM))
           + (px (getMousePos (containerRect sM) (pan sM) (zoom sM) eM) - px (the (dragStart sM))))
        (ry (the (initialMoveRect sM))
           + (py (getMousePos (containerRect sM) (pan sM) (zoom sM) eM) - py (the (dragStart sM))))
        (SNAP_DIST_PX_M / zoom sM)
        (arr_items (annotations sM)) (arr_items (annotations (handleMouseMoveM eM sM)))"
    unfolding dragMoveM_items [OF d] Let_def by (rule move_outcome_replace [OF w])
qed

theorem move_snaps_leading_then_trailing_witness:
  "dragging example_drag \<and> 0 < image_width example_drag \<and> 0 < image_height example_drag \<and>
   0 < zoom example_drag \<and>
   rx (yoloToSvg (arr_items (annotations (handleMouseMove (pointer 13 50) example_drag)) ! 0) 100 100) = 0 \<and>
   rw (yoloToSvg (arr_items (annotations (handleMouseMove (pointer 13 50) example_drag)) ! 0) 100 100) = 20 \<and>
   draggingM example_dragM \<and> 0 < image_width example_dragM \<and> 0 < image_height example_dragM \<and>
   0 < zoom example_dragM \<and>
   rx (yoloToSvg (arr_items (annotations (handleMouseMoveM (pointer 1074 600) example_dragM)) ! 0) 100 100)
     + 20 = 100 \<and>
   ry (yoloToSvg (arr_items (annotations (handleMouseMoveM (pointer 1074 600) example_dragM)) ! 0) 100 100)
     = 40"
proof -
  have h: "dragging example_drag" "0 < image_width example_drag" "0 < image_height example_drag"
    "0 < zoom example_drag"
    by (simp_all add: example_drag_def dragging_def eval_defs)
  have hM: "draggingM example_dragM" "0 < image_width example_dragM"
    "0 < image_height example_dragM" "0 < zoom example_dragM"
    by (simp_all add: example_dragM_def draggingM_def evalM_defs)
  have v: "image_width example_drag = 100" "image_height example_drag = 100"
    "the (draggingAnnotationId example_drag) = ''a''"
    "the (initialMoveRect example_drag) = \<lparr>rx = 40, ry = 40, rw = 20, rh = 20\<rparr>"
    "the (dragStart example_drag) = \<lparr>px = 50, py = 50\<rparr>"
    "getMousePos (containerRect example_drag) (pan example_drag) (zoom example_drag) (pointer 13 50)
       = \<lparr>px = 13, py = 50\<rparr>"
    "snapPixelDistance example_drag / zoom example_drag = 5"
    "arr_items (annotations example_drag) = [example_box]"
    by (simp_all add: example_drag_def eval_defs)
  have vM: "image_width example_dragM = 100" "image_height example_dragM = 100"
    "the (draggingAnnotationId example_dragM) = ''a''"
    "the (initialMoveRect example_dragM) = \<lparr>rx = 40, ry = 40, rw = 20, rh = 20\<rparr>"
    "the (dragStart example_dragM) = \<lparr>px = 50, py = 50\<rparr>"
    "getMousePos (containerRect example_dragM) (pan example_dragM) (zoom example_dragM) (pointer 1074 600)
       = \<lparr>px = 179 / 2, py = 50\<rparr>"
    "SNAP_DIST_PX_M / zoom example_dragM = 1"
    "arr_items (annotations example_dragM) = [example_box]"
    by (simp_all add: example_dragM_def evalM_defs)
  have l: "getSnapLines 100 100 [example_box] (Some ''a'') = ([0, 100], [0, 100])"
    by (simp add: getSnapLines_def example_box_def)
  have eb: "bb_id example_box = ''a''" by (simp add: example_box_def)
  from move_snaps_leading_then_trailing [of example_drag "pointer 13 50" example_dragM "pointer 1074 600"] h
  have "move_outcome 100 100 ''a'' \<lparr>rx = 40, ry = 40, rw = 20, rh = 20\<rparr> 3 40 5 [example_box]
          (arr_items (annotations (handleMouseMove (pointer 13 50) example_drag)))"
    by (simp add: v)
  then have a: "rx (yoloToSvg (arr_items (annotations (handleMouseMove (pointer 13 50) example_drag)) ! 0) 100 100) = 0"
    "rw (yoloToSvg (arr_items (annotations (handleMouseMove (pointer 13 50) example_drag)) ! 0) 100 100) = 20"
    by (simp_all add: move_outcome_def l eb edge_placed_def closestSnap_spec_def Let_def)
  from move_snaps_leading_then_trailing [of example_drag "pointer 13 50" example_dragM "pointer 1074 600"] hM
  have "move_outcome 100 100 ''a'' \<lparr>rx = 40, ry = 40, rw = 20, rh = 20\<rparr> (159 / 2) 40 1 [example_box]
          (arr_items (annotations (handleMouseMoveM (pointer 1074 600) example_dragM)))"
    by (simp add: vM)
  then have b: "rx (yoloToSvg (arr_items (annotations (handleMouseMoveM (pointer 1074 600) example_dragM)) ! 0) 100 100)
     + 20 = 100"
    "ry (yoloToSvg (arr_items (annotations (handleMouseMoveM (pointer 1074 600) example_dragM)) ! 0) 100 100)
     = 40"
    by (simp_all add: move_outcome_def l eb edge_placed_def closestSnap_spec_def Let_def)
  from h hM a b show ?thesis by simp
qed

section \<open>Resizing a box\<close>

lemma resizeRectM_props:
  "rw (resizeRectM handle r mx my) = max (fst (recomputed handle r mx my)) 5"
  "rh (resizeRectM handle r mx my) = max (snd (recomputed handle r mx my)) 5"
  "opposite_fixed handle r (resizeRectM handle r mx my)"
  by (cases handle; simp add: resizeRectM_def recomputed_def opposite_fixed_def Let_def; linarith?)+

lemma resizeRect_props:
  "rw (resizeRect handle r mx my) = fst (recomputed handle r mx my)"
  "rh (resizeRect handle r mx my) = snd (recomputed handle r mx my)"
  "opposite_fixed handle r (resizeRect handle r mx my)"
  by (cases handle; simp add: resizeRect_def recomputed_def opposite_fixed_def)+

lemma findAnnotation_id: "findAnnotation ident anns = Some ann \<Longrightarrow> bb_id ann = ident"
  by (auto simp: findAnnotation_def find_Some_iff)

lemma roundtrip_rect:
  assumes "0 < width" "0 < height"
  shows "yoloToSvg (spread a (svgToYolo (rx n) (ry n) (rw n) (rh n) width height)) width height = n"
  by (simp add: yolo_roundtrip(2) [OF assms])

lemma replaceGeometry_nth:
  assumes "i < length anns"
  shows "replaceGeometry ident g anns ! i
           = (if bb_id (anns ! i) = ident then spread (anns ! i) g else anns ! i)"
  using assms by (simp add: replaceGeometry_def)

lemma replaceGeometry_length: "length (replaceGeometry ident g anns) = length anns"
  by (simp add: replaceGeometry_def)

lemma replaced_boxes:
  assumes wh: "0 < width" "0 < height"
    and new: "new = replaceGeometry ident (svgToYolo (rx n) (ry n) (rw n) (rh n) width height) anns"
  shows "length new = length anns"
    and "\<forall>i < length anns.
           if bb_id (anns ! i) = ident
           then yoloToSvg (new ! i) width height = n \<and> bb_id (new ! i) = ident \<and>
                bb_labelId (new ! i) = bb_labelId (anns ! i)
           else new ! i = anns ! i"
  unfolding new
  by (simp_all add: replaceGeometry_length replaceGeometry_nth roundtrip_rect [OF wh] spread_fields)

lemma resize_clamped_replace:
  assumes wh: "0 < width" "0 < height"
  shows "resize_clamped width height ident handle r (mx, my) anns
           (replaceGeometry ident
              (svgToYolo (rx (resizeRectM handle r mx my)) (ry (resizeRectM handle r mx my))
                 (rw (resizeRectM handle r mx my)) (rh (resizeRectM handle r mx my)) width height)
              anns)"
proof -
  define n where "n = resizeRectM handle r mx my"
  define new where
    "new = replaceGeometry ident (svgToYolo (rx n) (ry n) (rw n) (rh n) width height) anns"
  have n: "rw n = max (fst (recomputed handle r mx my)) 5"
    "rh n = max (snd (recomputed handle r mx my)) 5" "opposite_fixed handle r n"
    unfolding n_def by (rule resizeRectM_props)+
  have br: "handle = BR \<and> mx \<le> rx r \<and> my \<le> ry r \<longrightarrow> rw n = 5 \<and> rh n = 5"
    unfolding n_def by (simp add: resizeRectM_def Let_def max_def)
  note R = replaced_boxes [OF wh new_def]
  have "resize_clamped width height ident handle r (mx, my) anns new"
    unfolding resize_clamped_def Let_def
    using R n br by auto
  then show ?thesis unfolding new_def n_def .
qed

lemma resize_unclamped_replace:
  assumes wh: "0 < width" "0 < height"
    and pos: "0 < rw (resizeRect handle r mx my)" "0 < rh (resizeRect handle r mx my)"
  shows "resize_unclamped width height ident handle r (mx, my) anns
           (replaceGeometry ident
              (svgToYolo (rx (resizeRect handle r mx my)) (ry (resizeRect handle r mx my))
                 (rw (resizeRect handle r mx my)) (rh (resizeRect handle r mx my)) width height)
              anns)"
proof -
  define n where "n = resizeRect handle r mx my"
  define new where
    "new = replaceGeometry ident (svgToYolo (rx n) (ry n) (rw n) (rh n) width height) anns"
  have n: "rw n = fst (recomputed handle r mx my)"
    "rh n = snd (recomputed handle r mx my)" "opposite_fixed handle r n"
    unfolding n_def by (rule resizeRect_props)+
  from pos have p: "0 < rw n" "0 < rh n" unfolding n_def by simp_all
  note R = replaced_boxes [OF wh new_def]
  have "resize_unclamped width height ident handle r (mx, my) anns new"
    unfolding resize_unclamped_def Let_def
    using R n p by auto
  then show ?thesis unfolding new_def n_def .
qed

lemma resizeMoveM_items:
  assumes r: "resizing s handle ann"
  shows "arr_items (annotations (handleMouseMoveM e s)) =
     replaceGeometry (the (selectedAnnotationId s))
       (svgToYolo
          (rx (resizeRectM handle (yoloToSvg ann (image_width s) (image_height s))
                 (fst (snapped_pointer s SNAP_DIST_PX_M e)) (snd (snapped_pointer s SNAP_DIST_PX_M e))))
          (ry (resizeRectM handle (yoloToSvg ann (image_width s) (image_height s))
                 (fst (snapped_pointer s SNAP_DIST_PX_M e)) (snd (snapped_pointer s SNAP_DIST_PX_M e))))
          (rw (resizeRectM handle (yoloToSvg ann (image_width s) (image_height s))
                 (fst (snapped_pointer s SNAP_DIST_PX_M e)) (snd (snapped_pointer s SNAP_DIST_PX_M e))))
          (rh (resizeRectM handle (yoloToSvg ann (image_width s) (image_height s))
                 (fst (snapped_pointer s SNAP_DIST_PX_M e)) (snd (snapped_pointer s SNAP_DIST_PX_M e))))
          (image_width s) (image_height s))
       (arr_items (annotations s))"
proof -
  from r have i: "bb_id ann = the (selectedAnnotationId s)"
    by (auto simp add: resizing_def dest: findAnnotation_id)
  from r i show ?thesis
    by (simp add: resizing_def handleMouseMoveM_def resizeMoveM_def updateWithNewArray_def
          onUpdateAnnotations_def Let_def split_def getClosestSnapM_spec snapped_pointer_def)
qed

lemma resizeMove_items:
  assumes r: "resizing s handle ann" and z: "0 < zoom s"
  shows "annotations (handleMouseMove e s) =
     (let n = resizeRect handle (yoloToSvg ann (image_width s) (image_height s))
                (fst (snapped_pointer s (snapPixelDistance s) e))
                (snd (snapped_pointer s (snapPixelDistance s) e))
      in if 0 < rw n \<and> 0 < rh n
         then \<lparr>arr_ref = next_ref s,
               arr_items = replaceGeometry (the (selectedAnnotationId s))
                 (svgToYolo (rx n) (ry n) (rw n) (rh n) (image_width s) (image_height s))
                 (arr_items (annotations s))\<rparr>
         else annotations s)"
proof -
  note sp = getClosestSnap_spec [OF snap_threshold [OF z]]
  from r show ?thesis
    by (simp add: resizing_def move_defs sp snapped_pointer_def)
qed

text \<open>
  C2, as amended. A resize event (positive image size and zoom), after the
  pointer-controlled corner is snapped: in the MagicBox Canvas the recomputed width and
  height are raised to at least 5 pixels with the opposite corner fixed, and the
  bottom-right handle dragged to the left of and above the top-left corner gives a 5 by 5
  box. In the history-enabled Canvas there is no clamp: when both recomputed dimensions are
  positive the box gets exactly them, with the opposite corner fixed; otherwise the event
  is rejected and the annotation list stays as it is.
\<close>

theorem resize_clamps_or_rejects:
  "(resizing sM handleM annM \<and> 0 < image_width sM \<and> 0 < image_height sM \<and> 0 < zoom sM \<longrightarrow>
      resize_clamped (image_width sM) (image_height sM) (bb_id annM) handleM
        (yoloToSvg annM (image_width sM) (image_height sM))
        (snapped_pointer sM SNAP_DIST_PX_M eM)
        (arr_items (annotations sM)) (arr_items (annotations (handleMouseMoveM eM sM)))) \<and>
   (resizing s handle ann \<and> 0 < image_width s \<and> 0 < image_height s \<and> 0 < zoom s \<longrightarrow>
      (if 0 < fst (recomputed handle (yoloToSvg ann (image_width s) (image_height s))
                     (fst (snapped_pointer s (snapPixelDistance s) e))
                     (snd (snapped_pointer s (snapPixelDistance s) e))) \<and>
          0 < snd (recomputed handle (yoloToSvg ann (image_width s) (image_height s))
                     (fst (snapped_pointer s (snapPixelDistance s) e))
                     (snd (snapped_pointer s (snapPixelDistance s) e)))
       then resize_unclamped (image_width s) (image_height s) (bb_id ann) handle
              (yoloToSvg ann (image_width s) (image_height s))
              (snapped_pointer s (snapPixelDistance s) e)
              (arr_items (annotations s)) (arr_items (annotations (handleMouseMove e s)))
       else annotations (handleMouseMove e s) = annotations s))"
proof (intro conjI impI)
  assume a: "resizing sM handleM annM \<and> 0 < image_width sM \<and> 0 < image_height sM \<and> 0 < zoom sM"
  then have r: "resizing sM handleM annM" and w: "0 < image_width sM" "0 < image_height sM"
    by simp_all
  from r have i: "bb_id annM = the (selectedAnnotationId sM)"
    by (auto simp add: resizing_def dest: findAnnotation_id)
  from resize_clamped_replace [OF w, of "bb_id annM" handleM
      "yoloToSvg annM (image_width sM) (image_height sM)"
      "fst (snapped_pointer sM SNAP_DIST_PX_M eM)" "snd (snapped_pointer sM SNAP_DIST_PX_M eM)"
      "arr_items (annotations sM)"]
  show "resize_clamped (image_width sM) (image_height sM) (bb_id annM) handleM
        (yoloToSvg annM (image_width sM) (image_height sM))
        (snapped_pointer sM SNAP_DIST_PX_M eM)
        (arr_items (annotations sM)) (arr_items (annotations (handleMouseMoveM eM sM)))"
    by (simp add: resizeMoveM_items [OF r] i)
next
  assume a: "resizing s handle ann \<and> 0 < image_width s \<and> 0 < image_height s \<and> 0 < zoom s"
  then have r: "resizing s handle ann" and w: "0 < image_width s" "0 < image_height s"
    and z: "0 < zoom s" by simp_all
  from r have i: "bb_id ann = the (selectedAnnotationId s)"
    by (auto simp add: resizing_def dest: findAnnotation_id)
  let ?r = "yoloToSvg ann (image_width s) (image_height s)"
  let ?mx = "fst (snapped_pointer s (snapPixelDistance s) e)"
  let ?my = "snd (snapped_pointer s (snapPixelDistance s) e)"
  show "if 0 < fst (recomputed handle ?r ?mx ?my) \<and> 0 < snd (recomputed handle ?r ?mx ?my)
       then resize_unclamped (image_width s) (image_height s) (bb_id ann) handle ?r
              (snapped_pointer s (snapPixelDistance s) e)
              (arr_items (annotations s)) (arr_items (annotations (handleMouseMove e s)))
       else annotations (handleMouseMove e s) = annotations s"
  proof (cases "0 < rw (resizeRect handle ?r ?mx ?my) \<and> 0 < rh (resizeRect handle ?r ?mx ?my)")
    case True
    then have p: "0 < rw (resizeRect handle ?r ?mx ?my)" "0 < rh (resizeRect handle ?r ?mx ?my)"
      by simp_all
    from True have c: "0 < fst (recomputed handle ?r ?mx ?my) \<and> 0 < snd (recomputed handle ?r ?mx ?my)"
      unfolding resizeRect_props(1,2) .
    have "arr_items (annotations (handleMouseMove e s)) =
            replaceGeometry (bb_id ann)
              (svgToYolo (rx (resizeRect handle ?r ?mx ?my)) (ry (resizeRect handle ?r ?mx ?my))
                 (rw (resizeRect handle ?r ?mx ?my)) (rh (resizeRect handle ?r ?mx ?my))
                 (image_width s) (image_height s))
              (arr_items (annotations s))"
      unfolding resizeMove_items [OF r z] Let_def if_P [OF True] i by simp
    with resize_unclamped_replace [OF w p, of "bb_id ann" "arr_items (annotations s)"]
    show ?thesis unfolding if_P [OF c] by simp
  next
    case False
    then have c: "\<not> (0 < fst (recomputed handle ?r ?mx ?my) \<and> 0 < snd (recomputed handle ?r ?mx ?my))"
      unfolding resizeRect_props(1,2) .
    have "annotations (handleMouseMove e s) = annotations s"
      unfolding resizeMove_items [OF r z] Let_def by (rule if_not_P [OF False])
    then show ?thesis unfolding if_not_P [OF c] .
  qed
qed

text \<open>
  C2 as stated fails in the history-enabled Canvas: with the bottom-right handle of the
  20 by 20 example box grabbed, a move to (10, 10), left of and above its top-left corner
  (40, 40), leaves the box 20 by 20, and a move to (42, 43) makes it 2 by 3.
\<close>

theorem resize_not_clamped_counterexample:
  "mode example_resize = SELECT \<and> resizeHandle example_resize = Some BR \<and>
   selectedAnnotationId example_resize = Some ''a'' \<and>
   yoloToSvg (arr_items (annotations example_resize) ! 0) 100 100
     = \<lparr>rx = 40, ry = 40, rw = 20, rh = 20\<rparr> \<and>
   yoloToSvg (arr_items (annotations (step (MouseMove (pointer 10 10)) example_resize)) ! 0) 100 100
     = \<lparr>rx = 40, ry = 40, rw = 20, rh = 20\<rparr> \<and>
   yoloToSvg (arr_items (annotations (step (MouseMove (pointer 42 43)) example_resize)) ! 0) 100 100
     = \<lparr>rx = 40, ry = 40, rw = 2, rh = 3\<rparr>"
  by (simp add: example_resize_def eval_defs)

theorem resize_clamps_or_rejects_witness:
  "resizing example_resizeM BR example_box \<and> 0 < image_width example_resizeM \<and>
   0 < image_height example_resizeM \<and> 0 < zoom example_resizeM \<and>
   snapped_pointer example_resizeM SNAP_DIST_PX_M (pointer 120 120) = (10, 10) \<and>
   rw (yoloToSvg (arr_items (annotations (handleMouseMoveM (pointer 120 120) example_resizeM)) ! 0)
         100 100) = 5 \<and>
   rh (yoloToSvg (arr_items (annotations (handleMouseMoveM (pointer 120 120) example_resizeM)) ! 0)
         100 100) = 5 \<and>
   resizing example_resize BR example_box \<and> 0 < image_width example_resize \<and>
   0 < image_height example_resize \<and> 0 < zoom example_resize \<and>
   annotations (handleMouseMove (pointer 10 10) example_resize) = annotations example_resize"
proof -
  have hM: "resizing example_resizeM BR example_box" "0 < image_width example_resizeM"
    "0 < image_height example_resizeM" "0 < zoom example_resizeM"
    unfolding resizing_def by code_simp+
  have h: "resizing example_resize BR example_box" "0 < image_width example_resize"
    "0 < image_height example_resize" "0 < zoom example_resize"
    unfolding resizing_def by code_simp+
  have vM: "image_width example_resizeM = 100" "image_height example_resizeM = 100"
    "arr_items (annotations example_resizeM) = [example_box]"
    "snapped_pointer example_resizeM SNAP_DIST_PX_M (pointer 120 120) = (10, 10)"
    by code_simp+
  have v: "image_width example_resize = 100" "image_height example_resize = 100"
    "snapPixelDistance example_resize = 0"
    "snapped_pointer example_resize 0 (pointer 10 10) = (10, 10)"
    by code_simp+
  have r: "yoloToSvg example_box 100 100 = \<lparr>rx = 40, ry = 40, rw = 20, rh = 20\<rparr>"
    by (simp add: yoloToSvg_def example_box_def)
  have eb: "bb_id example_box = ''a''" by (simp add: example_box_def)
  note T = resize_clamps_or_rejects [of example_resizeM BR example_box "pointer 120 120"
             example_resize BR example_box "pointer 10 10"]
  from T hM have "resize_clamped 100 100 ''a'' BR \<lparr>rx = 40, ry = 40, rw = 20, rh = 20\<rparr> (10, 10)
      [example_box] (arr_items (annotations (handleMouseMoveM (pointer 120 120) example_resizeM)))"
    by (simp add: vM r eb)
  then have a: "rw (yoloToSvg (arr_items (annotations (handleMouseMoveM (pointer 120 120) example_resizeM)) ! 0)
         100 100) = 5"
    "rh (yoloToSvg (arr_items (annotations (handleMouseMoveM (pointer 120 120) example_resizeM)) ! 0)
         100 100) = 5"
    by (simp_all add: resize_clamped_def Let_def eb)
  from T h have b: "annotations (handleMouseMove (pointer 10 10) example_resize) = annotations example_resize"
    by (simp add: v r recomputed_def)
  from hM h vM(4) a b show ?thesis by simp
qed

section \<open>Positive width and height\<close>

lemma valid_boxes_replace:
  assumes "valid_boxes anns" "0 < w" "0 < h" "0 < width" "0 < height"
  shows "valid_boxes (replaceGeometry ident (svgToYolo x y w h width height) anns)"
  using assms by (auto simp: valid_boxes_def replaceGeometry_def spread_def svgToYolo_def)

lemma valid_boxes_append:
  assumes "valid_boxes anns" "0 < w" "0 < h" "0 < width" "0 < height"
  shows "valid_boxes (anns @ [makeBBox ident label (svgToYolo x y w h width height)])"
  using assms by (auto simp: valid_boxes_def makeBBox_def svgToYolo_def)

lemma valid_found:
  assumes "valid_boxes anns" "findAnnotation ident anns = Some ann" "0 < width" "0 < height"
  shows "0 < rw (yoloToSvg ann width height)" "0 < rh (yoloToSvg ann width height)"
proof -
  from assms(2) have "ann \<in> set anns"
    by (auto simp: findAnnotation_def find_Some_iff)
  with assms(1) have "0 < bb_w ann" "0 < bb_h ann" by (auto simp: valid_boxes_def)
  with assms(3,4) show "0 < rw (yoloToSvg ann width height)" "0 < rh (yoloToSvg ann width height)"
    by (simp_all add: yoloToSvg_def)
qed

lemma render_valid: "valid_canvas s \<Longrightarrow> valid_canvas (render s)"
  by (simp add: valid_canvas_def valid_core_def render_def historyEffect_def Let_def)

lemma handleMouseDown_valid: "valid_canvas s \<Longrightarrow> valid_canvas (handleMouseDown e s)"
  by (simp add: valid_canvas_def valid_core_def handleMouseDown_def Let_def)

lemma handleAnnotationMouseDown_valid:
  "valid_canvas s \<Longrightarrow> valid_canvas (handleAnnotationMouseDown e ident s)"
  by (auto simp add: valid_canvas_def valid_core_def handleAnnotationMouseDown_def Let_def
        valid_found split: option.splits)

lemma handleResizeMouseDown_valid:
  "valid_canvas s \<Longrightarrow> valid_canvas (handleResizeMouseDown e handle ident s)"
  by (simp add: valid_canvas_def valid_core_def handleResizeMouseDown_def)

lemma handleMouseMove_valid:
  assumes v: "valid_canvas s"
  shows "valid_canvas (handleMouseMove e s)"
proof -
  from v have c: "valid_core s" by (simp add: valid_canvas_def)
  have "valid_boxes (arr_items (annotations (handleMouseMove e s)))"
  proof (cases "initialMoveRect s")
    case None
    with c show ?thesis
      by (simp add: valid_core_def move_defs valid_boxes_replace split: option.splits)
  next
    case (Some r0)
    with c have "0 < rw r0" "0 < rh r0" by (simp_all add: valid_core_def)
    with c Some show ?thesis
      by (simp add: valid_core_def move_defs valid_boxes_replace split: option.splits)
  qed
  with v show ?thesis
    by (simp add: valid_canvas_def valid_core_def handleMouseMove_frame)
qed

lemma handleMouseUp_valid:
  assumes v: "valid_canvas s"
  shows "valid_canvas (handleMouseUp u s)"
proof (cases "finalizes s")
  case False
  with v show ?thesis
    by (simp add: handleMouseUp_plain valid_canvas_def valid_core_def)
next
  case True
  then obtain ac where ac: "activeCreation s = Some ac" "5 < rw ac" "5 < rh ac" "mode s = DRAW"
    by (auto simp: finalizes_def)
  then have p: "0 < rw ac" "0 < rh ac" by simp_all
  from v have "valid_boxes (arr_items (annotations s))" "0 < image_width s" "0 < image_height s"
    by (simp_all add: valid_canvas_def valid_core_def)
  from valid_boxes_append [OF this(1) p this(2,3)] v ac show ?thesis
    by (simp add: handleMouseUp_def Let_def updateWithNewArray_def onUpdateAnnotations_def
          valid_canvas_def valid_core_def)
qed

lemma performUndo_valid: "valid_canvas s \<Longrightarrow> valid_canvas (performUndo s)"
  by (auto simp add: valid_canvas_def valid_core_def performUndo_def onUpdateAnnotations_def Let_def
        dest: in_set_butlastD)

lemma performRedo_valid: "valid_canvas s \<Longrightarrow> valid_canvas (performRedo s)"
  by (auto simp add: valid_canvas_def valid_core_def performRedo_def onUpdateAnnotations_def Let_def
        dest: in_set_butlastD)

lemma step_valid:
  assumes "valid_canvas s" "valid_event ev"
  shows "valid_canvas (step ev s)"
proof -
  have "valid_canvas (dispatch ev s)"
  proof (cases ev)
    case (SetImage ident width height anns)
    with assms show ?thesis by (simp add: valid_event_def valid_canvas_def valid_core_def)
  next
    case (HostUpdate newItems)
    with assms show ?thesis
      by (simp add: valid_event_def valid_canvas_def valid_core_def updateWithNewArray_def
            onUpdateAnnotations_def)
  qed (simp_all add: assms(1) handleMouseDown_valid handleAnnotationMouseDown_valid
        handleResizeMouseDown_valid handleMouseMove_valid handleMouseUp_valid performUndo_valid
        performRedo_valid)
  then show ?thesis by (simp add: step_def render_valid)
qed

lemma run_valid:
  "valid_canvas s \<Longrightarrow> \<forall>ev \<in> set evs. valid_event ev \<Longrightarrow> valid_canvas (run evs s)"
  by (induction evs arbitrary: s) (simp_all add: run_Nil run_Cons step_valid)

lemma stepM_valid:
  assumes c: "valid_core s"
  shows "valid_core (stepM ev s)"
proof (cases ev)
  case (MouseDownM e)
  with c show ?thesis by (simp add: valid_core_def handleMouseDownM_def Let_def)
next
  case (AnnMouseDownM e ident)
  with c show ?thesis
    by (auto simp add: valid_core_def handleAnnMouseDownM_def Let_def valid_found
          split: option.splits)
next
  case (ResizeStartM e handle)
  with c show ?thesis by (simp add: valid_core_def handleResizeStartM_def)
next
  case (MouseMoveM e)
  have p: "0 < rw (resizeRectM handle r mx my)" "0 < rh (resizeRectM handle r mx my)"
    for handle r mx my
    by (simp_all add: resizeRectM_props max_def)
  have f: "image_width (handleMouseMoveM e s) = image_width s"
    "image_height (handleMouseMoveM e s) = image_height s"
    "initialMoveRect (handleMouseMoveM e s) = initialMoveRect s"
    by (simp_all add: handleMouseMoveM_def drawMoveM_def resizeMoveM_def dragMoveM_def
          updateWithNewArray_def onUpdateAnnotations_def Let_def split_def split: option.splits)
  have "valid_boxes (arr_items (annotations (handleMouseMoveM e s)))"
  proof (cases "initialMoveRect s")
    case None
    with c show ?thesis
      by (simp add: valid_core_def handleMouseMoveM_def drawMoveM_def resizeMoveM_def
            dragMoveM_def updateWithNewArray_def onUpdateAnnotations_def Let_def split_def
            valid_boxes_replace p split: option.splits)
  next
    case (Some r0)
    with c have "0 < rw r0" "0 < rh r0" by (simp_all add: valid_core_def)
    with c Some show ?thesis
      by (simp add: valid_core_def handleMouseMoveM_def drawMoveM_def resizeMoveM_def
            dragMoveM_def updateWithNewArray_def onUpdateAnnotations_def Let_def split_def
            valid_boxes_replace p split: option.splits)
  qed
  with c f MouseMoveM show ?thesis by (simp add: valid_core_def)
next
  case (MouseUpM u)
  show ?thesis
  proof (cases "activeCreation s")
    case None
    with c MouseUpM show ?thesis by (simp add: valid_core_def handleMouseUpM_def)
  next
    case (Some ac)
    from c have b: "valid_boxes (arr_items (annotations s))" "0 < image_width s" "0 < image_height s"
      by (simp_all add: valid_core_def)
    have "valid_boxes (arr_items (annotations s) @
            [makeBBox u (currentLabelId s)
               (svgToYolo (rx ac) (ry ac) (rw ac) (rh ac) (image_width s) (image_height s))])"
      if "5 < rw ac" "5 < rh ac"
      using that by (intro valid_boxes_append b) simp_all
    with c Some MouseUpM show ?thesis
      by (simp add: valid_core_def handleMouseUpM_def Let_def updateWithNewArray_def
            onUpdateAnnotations_def)
  qed
qed

lemma runM_valid: "valid_core s \<Longrightarrow> valid_core (runM evs s)"
  by (induction evs arbitrary: s) (simp_all add: runM_def stepM_valid)

text \<open>
  C10. Every event of the editor (pointer-down, each move and resize event, pointer-up
  with or without a finalized draw, undo and redo) preserves the invariant, and with it
  the property that every box of the current list has positive width and height; so does
  every sequence of events, in both revisions of the Canvas. The host's own replacements of
  the list or the image preserve it when what they bring is valid.
\<close>

theorem operations_preserve_positive_size:
  "(valid_canvas s \<and> valid_event ev \<longrightarrow>
      valid_canvas (step ev s) \<and> valid_boxes (arr_items (annotations (step ev s)))) \<and>
   (valid_canvas s \<and> (\<forall>ev \<in> set evs. valid_event ev) \<longrightarrow>
      valid_boxes (arr_items (annotations (run evs s)))) \<and>
   (valid_core sM \<longrightarrow>
      valid_core (stepM evM sM) \<and> valid_boxes (arr_items (annotations (stepM evM sM)))) \<and>
   (valid_core sM \<longrightarrow> valid_boxes (arr_items (annotations (runM evsM sM))))"
proof -
  have a: "valid_boxes (arr_items (annotations t))" if "valid_canvas t" for t
    using that by (simp add: valid_canvas_def valid_core_def)
  have b: "valid_boxes (arr_items (annotations t))" if "valid_core t" for t :: canvasM
    using that by (simp add: valid_core_def)
  show ?thesis
    using step_valid [of s ev] run_valid [of s evs] stepM_valid [of sM evM] runM_valid [of sM evsM]
      a [of "step ev s"] a [of "run evs s"] b [of "stepM evM sM"] b [of "runM evsM sM"]
    by blast
qed

theorem operations_preserve_positive_size_witness:
  "valid_canvas example_canvas \<and>
   valid_boxes (arr_items (annotations (step (MouseMove (pointer 42 43)) example_resize))) \<and>
   valid_boxes (arr_items (annotations
     (run [AnnotationMouseDown (pointer 50 50) ''a'', MouseMove (pointer 60 50), MouseUp ''u'',
           AnnotationMouseDown (pointer 60 50) ''a'', MouseUp ''v'',
           ResizeMouseDown (pointer 70 60) BR ''a'', MouseMove (pointer 10 10),
           MouseMove (pointer 52 43), MouseUp ''w'', Undo, Undo, Redo] example_canvas))) \<and>
   arr_items (annotations
     (run [AnnotationMouseDown (pointer 50 50) ''a'', MouseMove (pointer 60 50), MouseUp ''u'',
           AnnotationMouseDown (pointer 60 50) ''a'', MouseUp ''v'',
           ResizeMouseDown (pointer 70 60) BR ''a'', MouseMove (pointer 10 10),
           MouseMove (pointer 52 43), MouseUp ''w'', Undo, Undo, Redo] example_canvas))
     = [example_box\<lparr>bb_x := 3 / 5\<rparr>] \<and>
   valid_core example_canvasM \<and>
   valid_boxes (arr_items (annotations
     (runM [AnnMouseDownM (pointer 600 600) ''a'', MouseUpM ''u'',
            ResizeStartM (pointer 720 720) BR, MouseMoveM (pointer 120 120)] example_canvasM)))"
proof -
  let ?evs = "[AnnotationMouseDown (pointer 50 50) ''a'', MouseMove (pointer 60 50), MouseUp ''u'',
           AnnotationMouseDown (pointer 60 50) ''a'', MouseUp ''v'',
           ResizeMouseDown (pointer 70 60) BR ''a'', MouseMove (pointer 10 10),
           MouseMove (pointer 52 43), MouseUp ''w'', Undo, Undo, Redo]"
  have v: "valid_canvas example_canvas"
    by (simp add: valid_canvas_def valid_core_def valid_boxes_def example_canvas_def example_box_def)
  have vr: "valid_canvas example_resize"
    unfolding example_resize_def by (rule run_valid [OF v]) (simp add: valid_event_def)
  have vM: "valid_core example_canvasM"
    by (simp add: valid_core_def valid_boxes_def example_canvasM_def example_box_def)
  have e: "\<forall>ev \<in> set ?evs. valid_event ev" by (simp add: valid_event_def)
  have m: "valid_event (MouseMove (pointer 42 43))" by (simp add: valid_event_def)
  have r: "arr_items (annotations (run ?evs example_canvas)) = [example_box\<lparr>bb_x := 3 / 5\<rparr>]"
    by code_simp
  from operations_preserve_positive_size [of example_resize "MouseMove (pointer 42 43)" ?evs
         example_canvasM "MouseMoveM (pointer 120 120)"
         "[AnnMouseDownM (pointer 600 600) ''a'', MouseUpM ''u'',
            ResizeStartM (pointer 720 720) BR, MouseMoveM (pointer 120 120)]"]
       operations_preserve_positive_size [of example_canvas "MouseMove (pointer 42 43)" ?evs
         example_canvasM "MouseMoveM (pointer 120 120)"
         "[AnnMouseDownM (pointer 600 600) ''a'', MouseUpM ''u'',
            ResizeStartM (pointer 720 720) BR, MouseMoveM (pointer 120 120)]"]
       v vr vM e m r
  show ?thesis by blast
qed

section \<open>Rendered states\<close>

text \<open>No handler touches what the effect remembers about the image id or its dependencies.\<close>

lemma dispatch_frame:
  "prevImageIdRef (dispatch ev s) = prevImageIdRef s"
  "effect_deps (dispatch ev s) = effect_deps s"
  by (cases ev; simp add: handleMouseMove_frame down_defs handleMouseUp_def performUndo_def
        performRedo_def updateWithNewArray_def onUpdateAnnotations_def Let_def
        split: option.splits)+

text \<open>Every step from a rendered state ends in a rendered state, and so does every run.\<close>

lemma rendered_step:
  assumes "rendered s"
  shows "rendered (step ev s)"
  using assms dispatch_frame [of ev s]
  by (auto simp add: rendered_def step_def render_def historyEffect_def Let_def)

lemma rendered_run: "rendered s \<Longrightarrow> rendered (run evs s)"
  by (induction evs arbitrary: s) (simp_all add: run_Nil run_Cons rendered_step)

end
